theory Spec2Isabelle
  imports Main
begin

section \<open>Python values and exceptions\<close>

text \<open>
  The development models \<^verbatim>\<open>examples/multi_user_update.py\<close>: the date selector
  \<^verbatim>\<open>choose_gb_theatrical_date\<close>, its helper \<^verbatim>\<open>parse_iso_date\<close> and the calendar
  builder \<^verbatim>\<open>build_ics_events\<close>. The script needs Python 3.11 or later (it reads
  \<^verbatim>\<open>datetime.UTC\<close>); the standard-library functions it calls are modelled as CPython
  3.11 computes them. Strings are lists of 8-bit characters, one per code point: the code
  points 0 to 255. Strings with a code point above 255 are outside the model.
\<close>

datatype py_error = ValueError | KeyError | TypeError | AttributeError | OverflowError | IndexError

text \<open>
  A decoded JSON document, as \<^verbatim>\<open>json.loads\<close> returns it. A Python dict is an
  association list read by \<open>map_of\<close> (the first binding of a key is its value).
  JSON numbers are Python ints here; numbers with a fraction or an exponent (Python floats)
  are outside the model.
\<close>

datatype json =
    JNull
  | JBool bool
  | JInt int
  | JStr string
  | JList "json list"
  | JDict "(string \<times> json) list"

text \<open>\<^verbatim>\<open>x.get(key)\<close>: only a dict has the method; a missing key gives None.\<close>

fun py_get :: "json \<Rightarrow> string \<Rightarrow> py_error + json" where
  "py_get (JDict kv) k = Inr (case map_of kv k of None \<Rightarrow> JNull | Some v \<Rightarrow> v)"
| "py_get _ k = Inl AttributeError"

text \<open>\<^verbatim>\<open>x.get(key, [])\<close>.\<close>

fun py_get_list :: "json \<Rightarrow> string \<Rightarrow> py_error + json" where
  "py_get_list (JDict kv) k = Inr (case map_of kv k of None \<Rightarrow> JList [] | Some v \<Rightarrow> v)"
| "py_get_list _ k = Inl AttributeError"

text \<open>\<^verbatim>\<open>x[key]\<close> with a string key.\<close>

fun py_getitem :: "json \<Rightarrow> string \<Rightarrow> py_error + json" where
  "py_getitem (JDict kv) k = (case map_of kv k of None \<Rightarrow> Inl KeyError | Some v \<Rightarrow> Inr v)"
| "py_getitem _ k = Inl TypeError"

text \<open>
  \<^verbatim>\<open>for r in x\<close>: a list yields its elements, a dict its keys, a string its
  characters; None, a bool and an int are not iterable.
\<close>

fun py_iter :: "json \<Rightarrow> py_error + json list" where
  "py_iter (JList xs) = Inr xs"
| "py_iter (JDict kv) = Inr (map (\<lambda>(k, v). JStr k) kv)"
| "py_iter (JStr s) = Inr (map (\<lambda>c. JStr [c]) s)"
| "py_iter _ = Inl TypeError"

text \<open>Truth value of an object, as \<^verbatim>\<open>if x\<close> and \<^verbatim>\<open>and\<close> test it.\<close>

fun py_truthy :: "json \<Rightarrow> bool" where
  "py_truthy JNull = False"
| "py_truthy (JBool b) = b"
| "py_truthy (JInt n) = (n \<noteq> 0)"
| "py_truthy (JStr s) = (s \<noteq> [])"
| "py_truthy (JList xs) = (xs \<noteq> [])"
| "py_truthy (JDict kv) = (kv \<noteq> [])"

text \<open>\<^verbatim>\<open>x == "..."\<close> and \<^verbatim>\<open>x == n\<close> (True and False compare as 1 and 0).\<close>

fun py_eq_str :: "json \<Rightarrow> string \<Rightarrow> bool" where
  "py_eq_str (JStr s) t = (s = t)"
| "py_eq_str _ t = False"

fun py_eq_int :: "json \<Rightarrow> int \<Rightarrow> bool" where
  "py_eq_int (JInt n) m = (n = m)"
| "py_eq_int (JBool b) m = ((if b then 1 else 0) = m)"
| "py_eq_int _ m = False"

section \<open>Calendar dates (\<^verbatim>\<open>datetime.date\<close>)\<close>

datatype date = Date (year: int) (month: int) (day: int)

definition MINYEAR :: int where "MINYEAR = 1"
definition MAXYEAR :: int where "MAXYEAR = 9999"

definition is_leap :: "int \<Rightarrow> bool" where
  "is_leap y = (y mod 4 = 0 \<and> (y mod 100 \<noteq> 0 \<or> y mod 400 = 0))"

definition days_in_month :: "int \<Rightarrow> int \<Rightarrow> int" where
  "days_in_month y m =
     (if m = 2 \<and> is_leap y then 29
      else [0, 31, 28, 31, 30, 31, 30, 31, 31, 30, 31, 30, 31] ! nat m)"

definition days_before_month :: "int \<Rightarrow> int \<Rightarrow> int" where
  "days_before_month y m =
     [0, 0, 31, 59, 90, 120, 151, 181, 212, 243, 273, 304, 334] ! nat m
       + (if m > 2 \<and> is_leap y then 1 else 0)"

definition days_before_year :: "int \<Rightarrow> int" where
  "days_before_year y = (y - 1) * 365 + (y - 1) div 4 - (y - 1) div 100 + (y - 1) div 400"

text \<open>\<^verbatim>\<open>date.toordinal()\<close>: 0001-01-01 is day 1.\<close>

definition ymd_to_ord :: "int \<Rightarrow> int \<Rightarrow> int \<Rightarrow> int" where
  "ymd_to_ord y m d = days_before_year y + days_before_month y m + d"

definition toordinal :: "date \<Rightarrow> int" where
  "toordinal dt = ymd_to_ord (year dt) (month dt) (day dt)"

text \<open>The inverse, for ordinals from 1 on: the 400/100/4/1-year cycles of the calendar.\<close>

definition ord_to_ymd :: "int \<Rightarrow> int \<times> int \<times> int" where
  "ord_to_ymd ordinal =
     (let o1 = ordinal - 1;
          n400 = o1 div 146097; r400 = o1 mod 146097;
          n100 = r400 div 36524; r100 = r400 mod 36524;
          n4 = r100 div 1461; r4 = r100 mod 1461;
          n1 = r4 div 365; n = r4 mod 365;
          y = n400 * 400 + 1 + n100 * 100 + n4 * 4 + n1
      in if n1 = 4 \<or> n100 = 4 then (y - 1, 12, 31)
         else
           let leapyear = (n1 = 3 \<and> (n4 \<noteq> 24 \<or> n100 = 3));
               m = (n + 50) div 32;
               preceding =
                 [0, 0, 31, 59, 90, 120, 151, 181, 212, 243, 273, 304, 334] ! nat m
                   + (if m > 2 \<and> leapyear then 1 else 0)
           in if preceding > n
              then (y, m - 1, n - (preceding - days_in_month y (m - 1)) + 1)
              else (y, m, n - preceding + 1))"

text \<open>
  The range check of every new date (\<^verbatim>\<open>check_date_args\<close> in CPython): a field out of
  range raises ValueError.
\<close>

definition check_date_args :: "int \<Rightarrow> int \<Rightarrow> int \<Rightarrow> py_error + date" where
  "check_date_args y m d =
     (if y < MINYEAR \<or> MAXYEAR < y then Inl ValueError
      else if m < 1 \<or> 12 < m then Inl ValueError
      else if d < 1 \<or> days_in_month y m < d then Inl ValueError
      else Inr (Date y m d))"

text \<open>
  The constructor \<^verbatim>\<open>datetime.date(y, m, d)\<close> called from Python: an argument that
  does not fit a C int raises OverflowError before the range check.
\<close>

definition date_new :: "int \<Rightarrow> int \<Rightarrow> int \<Rightarrow> py_error + date" where
  "date_new y m d =
     (if y < - (2 ^ 31) \<or> 2 ^ 31 \<le> y \<or> m < - (2 ^ 31) \<or> 2 ^ 31 \<le> m \<or>
         d < - (2 ^ 31) \<or> 2 ^ 31 \<le> d
      then Inl OverflowError
      else check_date_args y m d)"

text \<open>What the constructor accepts: the dates that exist.\<close>

definition valid_date :: "date \<Rightarrow> bool" where
  "valid_date dt =
     (MINYEAR \<le> year dt \<and> year dt \<le> MAXYEAR \<and> 1 \<le> month dt \<and> month dt \<le> 12 \<and>
      1 \<le> day dt \<and> day dt \<le> days_in_month (year dt) (month dt))"

text \<open>Dates compare by year, then month, then day.\<close>

instantiation date :: linorder
begin

definition less_eq_date :: "date \<Rightarrow> date \<Rightarrow> bool" where
  "less_eq_date a b =
     (year a < year b \<or> (year a = year b \<and>
        (month a < month b \<or> (month a = month b \<and> day a \<le> day b))))"

definition less_date :: "date \<Rightarrow> date \<Rightarrow> bool" where
  "less_date a b =
     (year a < year b \<or> (year a = year b \<and>
        (month a < month b \<or> (month a = month b \<and> day a < day b))))"

instance
proof
  fix x y z :: date
  show "(x < y) = (x \<le> y \<and> \<not> y \<le> x)"
    by (auto simp: less_eq_date_def less_date_def)
  show "x \<le> x"
    by (simp add: less_eq_date_def)
  show "x \<le> y \<Longrightarrow> y \<le> z \<Longrightarrow> x \<le> z"
    by (auto simp: less_eq_date_def)
  show "x \<le> y \<Longrightarrow> y \<le> x \<Longrightarrow> x = y"
    by (cases x; cases y) (auto simp: less_eq_date_def)
  show "x \<le> y \<or> y \<le> x"
    by (auto simp: less_eq_date_def)
qed

end

subsection \<open>\<^verbatim>\<open>date.fromisoformat\<close>\<close>

definition is_digit :: "char \<Rightarrow> bool" where
  "is_digit c = (48 \<le> (of_char c :: nat) \<and> (of_char c :: nat) \<le> 57)"

definition digit_val :: "char \<Rightarrow> int" where
  "digit_val c = int (of_char c) - 48"

text \<open>Reads exactly \<open>n\<close> decimal digits; the end of the string is not a digit.\<close>

fun parse_digits :: "nat \<Rightarrow> int \<Rightarrow> string \<Rightarrow> (int \<times> string) option" where
  "parse_digits 0 acc s = Some (acc, s)"
| "parse_digits (Suc n) acc [] = None"
| "parse_digits (Suc n) acc (c # cs) =
     (if is_digit c then parse_digits n (acc * 10 + digit_val c) cs else None)"

definition weekday_ymd :: "int \<Rightarrow> int \<Rightarrow> int \<Rightarrow> int" where
  "weekday_ymd y m d = (ymd_to_ord y m d + 6) mod 7"

definition iso_week1_monday :: "int \<Rightarrow> int" where
  "iso_week1_monday y =
     (let first_day = ymd_to_ord y 1 1;
          first_weekday = (first_day + 6) mod 7;
          week1_monday = first_day - first_weekday
      in if first_weekday > 3 then week1_monday + 7 else week1_monday)"

text \<open>
  An ISO week date (year, week, weekday) as year, month and day. The year 0000, which four
  digits can spell, ends in a ValueError like every other date that does not exist.
\<close>

definition iso_to_ymd :: "int \<Rightarrow> int \<Rightarrow> int \<Rightarrow> (int \<times> int \<times> int) option" where
  "iso_to_ymd iso_year iso_week iso_day =
     (if iso_year < MINYEAR \<or> MAXYEAR < iso_year then None
      else if (iso_week \<le> 0 \<or> iso_week \<ge> 53) \<and>
              \<not> (iso_week = 53 \<and>
                 (weekday_ymd iso_year 1 1 = 3 \<or>
                  (weekday_ymd iso_year 1 1 = 2 \<and> is_leap iso_year)))
      then None
      else if iso_day \<le> 0 \<or> iso_day \<ge> 8 then None
      else Some (ord_to_ymd (iso_week1_monday iso_year + ((iso_week - 1) * 7 + iso_day - 1))))"

text \<open>
  The date part of an ISO 8601 string: \<^verbatim>\<open>YYYY-MM-DD\<close>, \<^verbatim>\<open>YYYYMMDD\<close>,
  \<^verbatim>\<open>YYYY-Www\<close>, \<^verbatim>\<open>YYYYWww\<close>, \<^verbatim>\<open>YYYY-Www-D\<close> or \<^verbatim>\<open>YYYYWwwD\<close>. What follows the
  last field read is not looked at.
\<close>

definition parse_isoformat_date :: "string \<Rightarrow> (int \<times> int \<times> int) option" where
  "parse_isoformat_date dtstr =
     (case parse_digits 4 0 dtstr of
        None \<Rightarrow> None
      | Some (y, cur0) \<Rightarrow>
          let uses_separator = (cur0 \<noteq> [] \<and> hd cur0 = CHR ''-'');
              cur1 = (if uses_separator then tl cur0 else cur0)
          in if cur1 \<noteq> [] \<and> hd cur1 = CHR ''W''
             then
               (case parse_digits 2 0 (tl cur1) of
                  None \<Rightarrow> None
                | Some (iso_week, cur2) \<Rightarrow>
                    if cur2 \<noteq> []
                    then
                      if uses_separator \<and> hd cur2 \<noteq> CHR ''-'' then None
                      else
                        (case parse_digits 1 0 (if uses_separator then tl cur2 else cur2) of
                           None \<Rightarrow> None
                         | Some (iso_day, cur3) \<Rightarrow> iso_to_ymd y iso_week iso_day)
                    else iso_to_ymd y iso_week 1)
             else
               (case parse_digits 2 0 cur1 of
                  None \<Rightarrow> None
                | Some (m, cur2) \<Rightarrow>
                    if uses_separator \<and> (cur2 = [] \<or> hd cur2 \<noteq> CHR ''-'') then None
                    else
                      (case parse_digits 2 0 (if uses_separator then tl cur2 else cur2) of
                         None \<Rightarrow> None
                       | Some (d, cur3) \<Rightarrow> Some (y, m, d))))"

text \<open>
  \<^verbatim>\<open>PyUnicode_AsUTF8AndSize\<close>: the UTF-8 bytes of a string. A code point below 128 is
  one byte, a code point from 128 to 255 is the two bytes \<open>192 + n div 64\<close> and
  \<open>128 + n mod 64\<close>.
\<close>

definition utf8_char :: "char \<Rightarrow> string" where
  "utf8_char c =
     (let n = (of_char c :: nat)
      in if n < 128 then [c] else [char_of (192 + n div 64), char_of (128 + n mod 64)])"

definition utf8 :: "string \<Rightarrow> string" where
  "utf8 s = concat (map utf8_char s)"

text \<open>
  \<^verbatim>\<open>date.fromisoformat(dtstr)\<close>: the length tested and the characters read are those
  of the UTF-8 bytes of the string, not of its code points.
\<close>

definition fromisoformat :: "string \<Rightarrow> py_error + date" where
  "fromisoformat dtstr =
     (let dt_ptr = utf8 dtstr
      in if length dt_ptr \<in> {7, 8, 10}
         then (case parse_isoformat_date dt_ptr of
                 None \<Rightarrow> Inl ValueError
               | Some (y, m, d) \<Rightarrow> check_date_args y m d)
         else Inl ValueError)"

subsection \<open>The script's \<^verbatim>\<open>parse_iso_date\<close>\<close>

text \<open>\<^verbatim>\<open>return datetime.date.fromisoformat(s[:10])\<close>\<close>

definition parse_iso_date :: "string \<Rightarrow> py_error + date" where
  "parse_iso_date s = fromisoformat (take 10 s)"

subsection \<open>Formatting numbers and dates\<close>

definition digit_char :: "nat \<Rightarrow> char" where
  "digit_char n = ''0123456789'' ! n"

fun str_nat :: "nat \<Rightarrow> string" where
  "str_nat n = (if n < 10 then [digit_char n] else str_nat (n div 10) @ [digit_char (n mod 10)])"

declare str_nat.simps [simp del]

text \<open>
  \<^verbatim>\<open>str(i)\<close> of an int, as an f-string inserts it: an int of more than
  \<^verbatim>\<open>sys.int_info.default_max_str_digits\<close> decimal digits (the sign not counted) raises
  ValueError.
\<close>

definition max_str_digits :: nat where
  "max_str_digits = 4300"

definition str_int :: "int \<Rightarrow> py_error + string" where
  "str_int i =
     (let digits = str_nat (nat \<bar>i\<bar>)
      in if length digits > max_str_digits then Inl ValueError
         else Inr (if i < 0 then CHR ''-'' # digits else digits))"

text \<open>The format \<^verbatim>\<open>0wd\<close>: zeros between the sign and the digits up to width \<open>w\<close>.\<close>

definition fmt_0d :: "nat \<Rightarrow> int \<Rightarrow> string" where
  "fmt_0d w i =
     (if i < 0
      then CHR ''-'' # replicate (w - 1 - length (str_nat (nat (- i)))) CHR ''0'' @ str_nat (nat (- i))
      else replicate (w - length (str_nat (nat i))) CHR ''0'' @ str_nat (nat i))"

text \<open>\<^verbatim>\<open>date.isoformat()\<close>: \<^verbatim>\<open>"%04d-%02d-%02d"\<close>.\<close>

definition isoformat :: "date \<Rightarrow> string" where
  "isoformat dt = fmt_0d 4 (year dt) @ ''-'' @ fmt_0d 2 (month dt) @ ''-'' @ fmt_0d 2 (day dt)"

section \<open>The date selector\<close>

text \<open>
  One line on the error stream: \<^verbatim>\<open>Warning: Could not parse release date '...'\<close>,
  with the value of \<^verbatim>\<open>rd.get('release_date')\<close> it prints. The text of the exception
  that follows it is not modelled.
\<close>

datatype diagnostic = CouldNotParse json

text \<open>
  The first loop: the first element of \<^verbatim>\<open>results\<close> whose \<^verbatim>\<open>iso_3166_1\<close> is
  \<^verbatim>\<open>"GB"\<close>; elements after it are not read.
\<close>

fun find_gb :: "json list \<Rightarrow> py_error + json option" where
  "find_gb [] = Inr None"
| "find_gb (r # rs) =
     (case py_get r ''iso_3166_1'' of
        Inl e \<Rightarrow> Inl e
      | Inr v \<Rightarrow> if py_eq_str v ''GB'' then Inr (Some r) else find_gb rs)"

text \<open>\<^verbatim>\<open>TMDB_RELEASE_TYPE_THEATRICAL = 3\<close>\<close>

definition TMDB_RELEASE_TYPE_THEATRICAL :: int where
  "TMDB_RELEASE_TYPE_THEATRICAL = 3"

text \<open>
  The body of the \<^verbatim>\<open>try\<close>: \<^verbatim>\<open>parse_iso_date(rd["release_date"])\<close>. Slicing a
  value that is not a string, or handing the slice of a list to
  \<^verbatim>\<open>fromisoformat\<close>, raises TypeError. (For a dict this is Python 3.11: from 3.12 on a
  slice is hashable and the lookup raises KeyError. The theorems below that depend on the
  exception are about entries whose date is a string or null.)
\<close>

definition try_parse :: "json \<Rightarrow> py_error + date" where
  "try_parse rd =
     (case py_getitem rd ''release_date'' of
        Inl e \<Rightarrow> Inl e
      | Inr (JStr s) \<Rightarrow> parse_iso_date s
      | Inr _ \<Rightarrow> Inl TypeError)"

text \<open>
  The second loop, with the list \<^verbatim>\<open>theatrical\<close> and the lines printed so far.
  \<^verbatim>\<open>except (ValueError, KeyError)\<close> prints and goes on; any other exception leaves
  the function.
\<close>

fun collect_theatrical ::
  "json list \<Rightarrow> date list \<Rightarrow> diagnostic list \<Rightarrow> diagnostic list \<times> (py_error + date list)" where
  "collect_theatrical [] theatrical log = (log, Inr theatrical)"
| "collect_theatrical (rd # rds) theatrical log =
     (case py_get rd ''type'' of
        Inl e \<Rightarrow> (log, Inl e)
      | Inr t \<Rightarrow>
          if \<not> py_eq_int t TMDB_RELEASE_TYPE_THEATRICAL then collect_theatrical rds theatrical log
          else
            (case py_get rd ''release_date'' of
               Inl e \<Rightarrow> (log, Inl e)
             | Inr v \<Rightarrow>
                 if \<not> py_truthy v then collect_theatrical rds theatrical log
                 else
                   (case try_parse rd of
                      Inr d \<Rightarrow> collect_theatrical rds (theatrical @ [d]) log
                    | Inl e \<Rightarrow>
                        if e = ValueError \<or> e = KeyError
                        then collect_theatrical rds theatrical (log @ [CouldNotParse v])
                        else (log, Inl e))))"

text \<open>
  The end of the function: sort, keep the dates from today on, return the first of
  them, or else the first of all.
\<close>

definition pick_date :: "date list \<Rightarrow> date \<Rightarrow> py_error + (string option \<times> string option)" where
  "pick_date theatrical today =
     (if theatrical = [] then Inr (None, None)
      else
        let sorted_dates = sort theatrical;
            future = filter (\<lambda>d. d \<ge> today) sorted_dates
        in if future \<noteq> []
           then (case future of
                   d # _ \<Rightarrow> Inr (Some (isoformat d), Some ''upcoming'')
                 | [] \<Rightarrow> Inl IndexError)
           else (case sorted_dates of
                   d # _ \<Rightarrow> Inr (Some (isoformat d), Some ''released'')
                 | [] \<Rightarrow> Inl IndexError))"

text \<open>
  \<^verbatim>\<open>choose_gb_theatrical_date(release_dates_payload, today)\<close>: the lines it prints to
  the error stream, and the exception it raises or the pair it returns.
\<close>

definition choose_gb_theatrical_date ::
  "json \<Rightarrow> date \<Rightarrow> diagnostic list \<times> (py_error + (string option \<times> string option))" where
  "choose_gb_theatrical_date release_dates_payload today =
     (case py_get_list release_dates_payload ''results'' of
        Inl e \<Rightarrow> ([], Inl e)
      | Inr results \<Rightarrow>
          (case py_iter results of
             Inl e \<Rightarrow> ([], Inl e)
           | Inr rs \<Rightarrow>
               (case find_gb rs of
                  Inl e \<Rightarrow> ([], Inl e)
                | Inr None \<Rightarrow> ([], Inr (None, None))
                | Inr (Some gb) \<Rightarrow>
                    if \<not> py_truthy gb then ([], Inr (None, None))
                    else
                      (case py_get_list gb ''release_dates'' of
                         Inl e \<Rightarrow> ([], Inl e)
                       | Inr release_dates \<Rightarrow>
                           (case py_iter release_dates of
                              Inl e \<Rightarrow> ([], Inl e)
                            | Inr rds \<Rightarrow>
                                (case collect_theatrical rds [] [] of
                                   (log, Inl e) \<Rightarrow> (log, Inl e)
                                 | (log, Inr theatrical) \<Rightarrow> (log, pick_date theatrical today)))))))"

section \<open>The calendar builder\<close>

text \<open>
  A movie as \<^verbatim>\<open>process_user_watchlist\<close> builds it: the keys the builder reads.
  \<^verbatim>\<open>release_date\<close> is None for a movie without a date.
\<close>

record movie =
  tmdb_id :: int
  title :: string
  release_date :: "string option"
  tmdb_url :: string

text \<open>\<^verbatim>\<open>s.replace(old, new)\<close> for a one-character \<open>old\<close>.\<close>

definition replace_char :: "char \<Rightarrow> string \<Rightarrow> string \<Rightarrow> string" where
  "replace_char old new s = concat (map (\<lambda>c. if c = old then new else [c]) s)"

definition backslash :: char where "backslash = CHR 0x5C"
definition newline :: char where "newline = CHR 0x0A"
definition apostrophe :: char where "apostrophe = CHR 0x27"

text \<open>The four replacements of \<^verbatim>\<open>ics_escape\<close>, in the order the source applies them.\<close>

definition ics_escape :: "string \<Rightarrow> string" where
  "ics_escape s =
     replace_char newline [backslash, CHR ''n'']
       (replace_char CHR '','' [backslash, CHR '','']
         (replace_char CHR '';'' [backslash, CHR '';'']
           (replace_char backslash [backslash, backslash] s)))"

text \<open>\<^verbatim>\<open>s.split(sep)\<close> for a one-character separator.\<close>

fun split_acc :: "char \<Rightarrow> string \<Rightarrow> string \<Rightarrow> string list" where
  "split_acc sep cur [] = [rev cur]"
| "split_acc sep cur (c # cs) =
     (if c = sep then rev cur # split_acc sep [] cs else split_acc sep (c # cur) cs)"

definition split_on :: "char \<Rightarrow> string \<Rightarrow> string list" where
  "split_on sep s = split_acc sep [] s"

text \<open>
  \<^verbatim>\<open>int(s)\<close> of a string: white space around it, a sign, decimal digits with single
  underscores between them; more than 4300 digits are refused (the default limit). The
  white space is tab, line feed, vertical tab, form feed, carriage return and space, and,
  of the code points from 128 on, U+0085 and U+00A0; no code point from 128 to 255 is a
  decimal digit.
\<close>

definition is_space :: "char \<Rightarrow> bool" where
  "is_space c = ((of_char c :: nat) \<in> {9, 10, 11, 12, 13, 32, 133, 160})"

definition strip :: "string \<Rightarrow> string" where
  "strip s = rev (dropWhile is_space (rev (dropWhile is_space s)))"

fun int_digits :: "int \<Rightarrow> string \<Rightarrow> int option" where
  "int_digits acc [] = Some acc"
| "int_digits acc (c # cs) =
     (if is_digit c then int_digits (acc * 10 + digit_val c) cs
      else if c = CHR ''_'' then
        (case cs of
           [] \<Rightarrow> None
         | d # ds \<Rightarrow> if is_digit d then int_digits (acc * 10 + digit_val d) ds else None)
      else None)"

definition py_int :: "string \<Rightarrow> py_error + int" where
  "py_int s =
     (let t = strip s;
          neg = (t \<noteq> [] \<and> hd t = CHR ''-'');
          u = (if t \<noteq> [] \<and> (hd t = CHR ''-'' \<or> hd t = CHR ''+'') then tl t else t)
      in case u of
           [] \<Rightarrow> Inl ValueError
         | c # cs \<Rightarrow>
             if \<not> is_digit c then Inl ValueError
             else
               (case int_digits (digit_val c) cs of
                  None \<Rightarrow> Inl ValueError
                | Some n \<Rightarrow>
                    if length (filter is_digit u) > 4300 then Inl ValueError
                    else Inr (if neg then - n else n)))"

text \<open>
  \<^verbatim>\<open>y, mo, d = map(int, s.split("-"))\<close>: exactly three parts, each an int; every
  failure is a ValueError.
\<close>

definition unpack_ymd :: "string \<Rightarrow> py_error + (int \<times> int \<times> int)" where
  "unpack_ymd s =
     (case split_on CHR ''-'' s of
        [a, b, c] \<Rightarrow>
          (case py_int a of
             Inl e \<Rightarrow> Inl e
           | Inr y \<Rightarrow>
               (case py_int b of
                  Inl e \<Rightarrow> Inl e
                | Inr mo \<Rightarrow>
                    (case py_int c of
                       Inl e \<Rightarrow> Inl e
                     | Inr d \<Rightarrow> Inr (y, mo, d))))
      | _ \<Rightarrow> Inl ValueError)"

definition MAXORDINAL :: int where "MAXORDINAL = 3652059"

text \<open>
  \<^verbatim>\<open>dt + datetime.timedelta(days=n)\<close>: the day is moved and the date normalised; a
  result outside the years 1 to 9999 raises OverflowError.
\<close>

definition check_year :: "int \<Rightarrow> int \<Rightarrow> int \<Rightarrow> py_error + date" where
  "check_year y m d = (if MINYEAR \<le> y \<and> y \<le> MAXYEAR then Inr (Date y m d) else Inl OverflowError)"

definition date_add_days :: "date \<Rightarrow> int \<Rightarrow> py_error + date" where
  "date_add_days dt n =
     (let y = year dt; m = month dt; d = day dt + n; dim = days_in_month y m
      in if d < 1 \<or> d > dim
         then
           if d = 0
           then (if m - 1 > 0 then check_year y (m - 1) (days_in_month y (m - 1))
                 else check_year (y - 1) 12 31)
           else if d = dim + 1
           then (if m + 1 > 12 then check_year (y + 1) 1 1 else check_year y (m + 1) 1)
           else
             let ordinal = ymd_to_ord y m 1 + d - 1
             in if ordinal < 1 \<or> ordinal > MAXORDINAL then Inl OverflowError
                else (case ord_to_ymd ordinal of (y', m', d') \<Rightarrow> Inr (Date y' m' d'))
         else check_year y m d)"

text \<open>The nested helper \<^verbatim>\<open>yyyymmdd\<close>.\<close>

definition yyyymmdd :: "date \<Rightarrow> string" where
  "yyyymmdd dt = fmt_0d 4 (year dt) @ fmt_0d 2 (month dt) @ fmt_0d 2 (day dt)"

text \<open>
  The three texts of an event. The f-string of \<^verbatim>\<open>uid\<close> raises the ValueError of
  \<^verbatim>\<open>str\<close> for an id of more than 4300 digits.
\<close>

definition uid :: "movie \<Rightarrow> string \<Rightarrow> py_error + string" where
  "uid m username =
     (case str_int (tmdb_id m) of
        Inl e \<Rightarrow> Inl e
      | Inr ident \<Rightarrow> Inr (''tmdb-'' @ ident @ ''-'' @ username @ ''@film-release-tracker''))"

definition summary :: "movie \<Rightarrow> string" where
  "summary m = title m @ '' (UK theatrical release)''"

definition desc :: "movie \<Rightarrow> string" where
  "desc m = ''TMDb: '' @ tmdb_url m"

text \<open>
  One pass of the loop over the movies: the dates, then the identifier, then the ten lines
  of the event. \<^verbatim>\<open>None.split\<close> raises AttributeError.
\<close>

definition event_dates :: "movie \<Rightarrow> py_error + (date \<times> date)" where
  "event_dates m =
     (case release_date m of
        None \<Rightarrow> Inl AttributeError
      | Some s \<Rightarrow>
          (case unpack_ymd s of
             Inl e \<Rightarrow> Inl e
           | Inr (y, mo, d) \<Rightarrow>
               (case date_new y mo d of
                  Inl e \<Rightarrow> Inl e
                | Inr start \<Rightarrow>
                    (case date_add_days start 1 of
                       Inl e \<Rightarrow> Inl e
                     | Inr end_date \<Rightarrow> Inr (start, end_date)))))"

definition event_lines :: "movie \<Rightarrow> string \<Rightarrow> string \<Rightarrow> py_error + string list" where
  "event_lines m dtstamp_utc username =
     (case event_dates m of
        Inl e \<Rightarrow> Inl e
      | Inr (start, end_date) \<Rightarrow>
          (case uid m username of
             Inl e \<Rightarrow> Inl e
           | Inr uid_text \<Rightarrow>
               Inr [''BEGIN:VEVENT'',
                    ''UID:'' @ ics_escape uid_text,
                    ''DTSTAMP:'' @ dtstamp_utc,
                    ''DTSTART;VALUE=DATE:'' @ yyyymmdd start,
                    ''DTEND;VALUE=DATE:'' @ yyyymmdd end_date,
                    ''SUMMARY:'' @ ics_escape (summary m),
                    ''DESCRIPTION:'' @ ics_escape (desc m),
                    ''STATUS:CONFIRMED'',
                    ''TRANSP:TRANSPARENT'',
                    ''END:VEVENT'']))"

fun events :: "movie list \<Rightarrow> string \<Rightarrow> string \<Rightarrow> py_error + string list" where
  "events [] dtstamp_utc username = Inr []"
| "events (m # ms) dtstamp_utc username =
     (case event_lines m dtstamp_utc username of
        Inl e \<Rightarrow> Inl e
      | Inr ls \<Rightarrow>
          (case events ms dtstamp_utc username of
             Inl e \<Rightarrow> Inl e
           | Inr rest \<Rightarrow> Inr (ls @ rest)))"

definition header :: "string \<Rightarrow> string list" where
  "header username =
     [''BEGIN:VCALENDAR'',
      ''VERSION:2.0'',
      ''PRODID:-//Film Release Tracker//'' @ username @ ''//EN'',
      ''CALSCALE:GREGORIAN'',
      ''METHOD:PUBLISH'',
      ''X-WR-CALNAME:'' @ username @ [apostrophe] @ ''s Film Releases'',
      ''X-WR-CALDESC:UK theatrical releases tracked by '' @ username]"

text \<open>\<^verbatim>\<open>sep.join(lines)\<close>\<close>

fun join :: "string \<Rightarrow> string list \<Rightarrow> string" where
  "join sep [] = []"
| "join sep [x] = x"
| "join sep (x # y # ys) = x @ sep @ join sep (y # ys)"

text \<open>
  \<^verbatim>\<open>build_ics_events(movies, dtstamp_utc, username)\<close>: the exception of the first
  movie that raises one, or the document.
\<close>

definition build_ics_events :: "movie list \<Rightarrow> string \<Rightarrow> string \<Rightarrow> py_error + string" where
  "build_ics_events movies dtstamp_utc username =
     (case events movies dtstamp_utc username of
        Inl e \<Rightarrow> Inl e
      | Inr ev \<Rightarrow> Inr (join [newline] (header username @ ev @ [''END:VCALENDAR'']) @ [newline]))"

section \<open>The calendar builder of the specification\<close>

text \<open>
  Modelled from the spec: the builder of the single-user script \<^verbatim>\<open>bin/update\<close>, which
  \<^verbatim>\<open>tests/test_update.py\<close> calls with the movies and the timestamp only, is not among
  the sources. The specification gives the contract
  \<^verbatim>\<open>build(movies, timestampUTC, userId?)\<close> and the identifier of an event as
  \<^verbatim>\<open>"<prefix>-<catalogId>[-<userId>]@<namespace>"\<close>: the user segment and its hyphen
  are there when a user identifier is supplied, and only then. The prefix \<^verbatim>\<open>tmdb\<close> and
  the namespace \<^verbatim>\<open>film-release-tracker\<close> are those of the multi-user builder and of the
  tests; the catalog id is written as \<open>str_int\<close> writes it.
\<close>

definition spec_identifier :: "movie \<Rightarrow> string option \<Rightarrow> py_error + string" where
  "spec_identifier m user_id =
     (case str_int (tmdb_id m) of
        Inl e \<Rightarrow> Inl e
      | Inr ident \<Rightarrow>
          Inr (''tmdb-'' @ ident @ (case user_id of None \<Rightarrow> [] | Some u \<Rightarrow> ''-'' @ u)
               @ ''@film-release-tracker''))"

text \<open>
  Modelled from the spec: an event has the identifier, the start (the movie's release
  date), the end (start + 1 day), the summary \<^verbatim>\<open>"<title> (UK theatrical release)"\<close>, the
  description (the reference URL) and the fixed status and transparency markers; every
  free-text field is escaped. The dates, the texts, the escaping and the order of the lines
  are those of the multi-user builder.
\<close>

definition spec_event :: "movie \<Rightarrow> string \<Rightarrow> string option \<Rightarrow> py_error + string list" where
  "spec_event m timestamp_utc user_id =
     (case event_dates m of
        Inl e \<Rightarrow> Inl e
      | Inr (start, end_date) \<Rightarrow>
          (case spec_identifier m user_id of
             Inl e \<Rightarrow> Inl e
           | Inr identifier \<Rightarrow>
               Inr [''BEGIN:VEVENT'',
                    ''UID:'' @ ics_escape identifier,
                    ''DTSTAMP:'' @ timestamp_utc,
                    ''DTSTART;VALUE=DATE:'' @ yyyymmdd start,
                    ''DTEND;VALUE=DATE:'' @ yyyymmdd end_date,
                    ''SUMMARY:'' @ ics_escape (summary m),
                    ''DESCRIPTION:'' @ ics_escape (desc m),
                    ''STATUS:CONFIRMED'',
                    ''TRANSP:TRANSPARENT'',
                    ''END:VEVENT'']))"

text \<open>Modelled from the spec: one event per movie, in the order given.\<close>

fun spec_events :: "movie list \<Rightarrow> string \<Rightarrow> string option \<Rightarrow> py_error + string list" where
  "spec_events [] timestamp_utc user_id = Inr []"
| "spec_events (m # ms) timestamp_utc user_id =
     (case spec_event m timestamp_utc user_id of
        Inl e \<Rightarrow> Inl e
      | Inr ls \<Rightarrow>
          (case spec_events ms timestamp_utc user_id of
             Inl e \<Rightarrow> Inl e
           | Inr rest \<Rightarrow> Inr (ls @ rest)))"

text \<open>
  Modelled from the spec: a supplied user identifier is embedded in the product-id header,
  the calendar display name and the calendar description (the header of the multi-user
  builder); without one the document is generic. The generic product id is the one
  \<^verbatim>\<open>tests/test_update.py\<close> reads, \<^verbatim>\<open>-//Film Release Tracker//EN\<close>. The specification
  does not give the display name and the description of the generic document: the lines
  \<open>generic\<close> that follow the five fixed ones are a parameter.
\<close>

definition spec_header :: "string list \<Rightarrow> string option \<Rightarrow> string list" where
  "spec_header generic user_id =
     (case user_id of
        None \<Rightarrow>
          [''BEGIN:VCALENDAR'',
           ''VERSION:2.0'',
           ''PRODID:-//Film Release Tracker//EN'',
           ''CALSCALE:GREGORIAN'',
           ''METHOD:PUBLISH''] @ generic
      | Some u \<Rightarrow> header u)"

text \<open>
  Modelled from the spec: \<^verbatim>\<open>build(movies, timestampUTC, userId?)\<close>, the document as one
  text that ends in a newline, or the exception of the first movie that raises one.
\<close>

definition spec_build ::
  "string list \<Rightarrow> movie list \<Rightarrow> string \<Rightarrow> string option \<Rightarrow> py_error + string" where
  "spec_build generic movies timestamp_utc user_id =
     (case spec_events movies timestamp_utc user_id of
        Inl e \<Rightarrow> Inl e
      | Inr ev \<Rightarrow>
          Inr (join [newline] (spec_header generic user_id @ ev @ [''END:VCALENDAR'']) @ [newline]))"

section \<open>Specification functions\<close>

text \<open>
  The escaping rule in the words of the specification, character by character: a backslash,
  a semicolon and a comma get a backslash before them, a newline becomes a backslash and the
  letter n, every other character stays.
\<close>

definition escape_char :: "char \<Rightarrow> string" where
  "escape_char c =
     (if c = backslash \<or> c = CHR '';'' \<or> c = CHR '','' then [backslash, c]
      else if c = newline then [backslash, CHR ''n'']
      else [c])"

subsection \<open>Payloads and entries\<close>

text \<open>
  The payloads the claims speak of. A region entry is an object; one that is not the GB entry
  has no \<^verbatim>\<open>iso_3166_1\<close> equal to \<^verbatim>\<open>"GB"\<close>.
\<close>

definition not_gb_region :: "json \<Rightarrow> bool" where
  "not_gb_region r =
     (case r of JDict kv \<Rightarrow> map_of kv ''iso_3166_1'' \<noteq> Some (JStr ''GB'') | _ \<Rightarrow> False)"

text \<open>
  The payload \<open>payload\<close> (the pairs of the object) has the list \<open>pre @ JDict gb # post\<close> as
  its \<^verbatim>\<open>results\<close>, and \<open>gb\<close> is the first GB entry of that list.
\<close>

definition gb_region_at ::
  "(string \<times> json) list \<Rightarrow> json list \<Rightarrow> (string \<times> json) list \<Rightarrow> json list \<Rightarrow> bool" where
  "gb_region_at payload pre gb post =
     (map_of payload ''results'' = Some (JList (pre @ JDict gb # post)) \<and>
      list_all not_gb_region pre \<and>
      map_of gb ''iso_3166_1'' = Some (JStr ''GB''))"

text \<open>A release-date entry that is not theatrical: an object whose type is not 3.\<close>

definition non_theatrical :: "json \<Rightarrow> bool" where
  "non_theatrical rd =
     (case rd of JDict kv \<Rightarrow> map_of kv ''type'' \<noteq> Some (JInt 3) | _ \<Rightarrow> False)"

text \<open>
  A release-date entry as the catalog sends it: an object whose \<^verbatim>\<open>release_date\<close>, when
  it is there, is a string or null.
\<close>

definition well_formed_entry :: "json \<Rightarrow> bool" where
  "well_formed_entry rd =
     (case rd of
        JDict kv \<Rightarrow>
          (case map_of kv ''release_date'' of
             None \<Rightarrow> True
           | Some JNull \<Rightarrow> True
           | Some (JStr s) \<Rightarrow> True
           | Some _ \<Rightarrow> False)
      | _ \<Rightarrow> False)"

text \<open>
  The date string of a theatrical entry: the \<^verbatim>\<open>release_date\<close> of an object of type 3,
  when it is a string that is not empty (an empty string and null stand for no date).
\<close>

definition theatrical_date_string :: "json \<Rightarrow> string option" where
  "theatrical_date_string rd =
     (case rd of
        JDict kv \<Rightarrow>
          if map_of kv ''type'' = Some (JInt 3)
          then (case map_of kv ''release_date'' of
                  Some (JStr s) \<Rightarrow> if s = [] then None else Some s
                | _ \<Rightarrow> None)
          else None
      | _ \<Rightarrow> None)"

text \<open>The parseable theatrical dates of a list of entries, in the order of the list.\<close>

definition entry_date :: "json \<Rightarrow> date option" where
  "entry_date rd =
     (case theatrical_date_string rd of
        None \<Rightarrow> None
      | Some s \<Rightarrow> (case parse_iso_date s of Inr d \<Rightarrow> Some d | Inl e \<Rightarrow> None))"

definition theatrical_dates :: "json list \<Rightarrow> date list" where
  "theatrical_dates rds = List.map_filter entry_date rds"

text \<open>A malformed entry: a theatrical entry whose date string does not parse.\<close>

definition malformed_entry :: "json \<Rightarrow> bool" where
  "malformed_entry rd =
     (case theatrical_date_string rd of
        None \<Rightarrow> False
      | Some s \<Rightarrow> (case parse_iso_date s of Inr d \<Rightarrow> False | Inl e \<Rightarrow> True))"

text \<open>The diagnostics of a list of entries: one for every malformed entry, in order.\<close>

definition malformed_diagnostics :: "json list \<Rightarrow> diagnostic list" where
  "malformed_diagnostics rds =
     List.map_filter
       (\<lambda>rd. if malformed_entry rd
             then map_option (\<lambda>s. CouldNotParse (JStr s)) (theatrical_date_string rd)
             else None) rds"

text \<open>The shape of an ISO date string: four digits, two digits, two digits, with hyphens.\<close>

definition iso_date_shape :: "string \<Rightarrow> bool" where
  "iso_date_shape s =
     (length s = 10 \<and> list_all (\<lambda>i. is_digit (s ! i)) [0, 1, 2, 3, 5, 6, 8, 9] \<and>
      s ! 4 = CHR ''-'' \<and> s ! 7 = CHR ''-'')"

section \<open>Digits, formatting and parsing\<close>

lemma digit_cases: "n < 10 \<Longrightarrow> n \<in> {0, 1, 2, 3, 4, 5, 6, 7, 8, 9 :: nat}"
  by simp arith

lemma is_digit_digit_char: "n < 10 \<Longrightarrow> is_digit (digit_char n)"
  using digit_cases [of n] by (auto simp: is_digit_def digit_char_def)

lemma digit_val_digit_char: "n < 10 \<Longrightarrow> digit_val (digit_char n) = int n"
  using digit_cases [of n] by (auto simp: digit_val_def digit_char_def)

lemma digit_char_not_sep: "n < 10 \<Longrightarrow> digit_char n \<noteq> CHR ''-'' \<and> digit_char n \<noteq> CHR ''W''"
  using digit_cases [of n] by (auto simp: digit_char_def)

lemma str_nat_1: "n < 10 \<Longrightarrow> str_nat n = [digit_char n]"
  by (subst str_nat.simps) simp

lemma str_nat_2: "10 \<le> n \<Longrightarrow> n < 100 \<Longrightarrow> str_nat n = [digit_char (n div 10), digit_char (n mod 10)]"
  by (subst str_nat.simps) (simp add: str_nat_1)

lemma str_nat_3: "100 \<le> n \<Longrightarrow> n < 1000 \<Longrightarrow>
  str_nat n = [digit_char (n div 100), digit_char (n div 10 mod 10), digit_char (n mod 10)]"
  by (subst str_nat.simps) (simp add: str_nat_2 div_mult2_eq [symmetric])

lemma str_nat_4: "1000 \<le> n \<Longrightarrow> n < 10000 \<Longrightarrow>
  str_nat n = [digit_char (n div 1000), digit_char (n div 100 mod 10), digit_char (n div 10 mod 10), digit_char (n mod 10)]"
  by (subst str_nat.simps) (simp add: str_nat_3 div_mult2_eq [symmetric])


lemma replicate_small:
  "replicate (Suc 0) c = [c]" "replicate 2 c = [c, c]" "replicate 3 c = [c, c, c]"
  by (simp_all add: numeral_2_eq_2 numeral_3_eq_3)

lemma fmt_0d_2: 
  assumes "0 \<le> i" "i < 100"
  shows "fmt_0d 2 i = [digit_char (nat i div 10), digit_char (nat i mod 10)]"
proof -
  consider "nat i < 10" | "10 \<le> nat i" "nat i < 100" using assms by linarith
  then show ?thesis
  proof cases
    case 1
    then show ?thesis using assms by (simp add: fmt_0d_def str_nat_1 digit_char_def)
  next
    case 2
    then show ?thesis using assms by (simp add: fmt_0d_def str_nat_2)
  qed
qed

lemma fmt_0d_4:
  assumes "0 \<le> i" "i < 10000"
  shows "fmt_0d 4 i = [digit_char (nat i div 1000), digit_char (nat i div 100 mod 10),
                digit_char (nat i div 10 mod 10), digit_char (nat i mod 10)]"
proof -
  consider "nat i < 10" | "10 \<le> nat i" "nat i < 100" | "100 \<le> nat i" "nat i < 1000"
    | "1000 \<le> nat i" "nat i < 10000" using assms by linarith
  then show ?thesis
  proof cases
    case 1
    then show ?thesis using assms by (simp add: fmt_0d_def str_nat_1 digit_char_def replicate_small)
  next
    case 2
    then show ?thesis using assms by (simp add: fmt_0d_def str_nat_2 digit_char_def replicate_small)
  next
    case 3
    then show ?thesis using assms by (simp add: fmt_0d_def str_nat_3 digit_char_def replicate_small)
  next
    case 4
    then show ?thesis using assms by (simp add: fmt_0d_def str_nat_4)
  qed
qed

lemma parse_digits_1:
  "a < 10 \<Longrightarrow> parse_digits 1 acc (digit_char a # rest) = Some (acc * 10 + int a, rest)"
  by (simp add: is_digit_digit_char digit_val_digit_char)

lemma parse_digits_2:
  assumes "a < 10" "b < 10"
  shows "parse_digits 2 0 (digit_char a # digit_char b # rest) = Some (int a * 10 + int b, rest)"
proof -
  have "parse_digits 2 0 (digit_char a # digit_char b # rest)
      = parse_digits (Suc (Suc 0)) 0 (digit_char a # digit_char b # rest)"
    by (simp add: numeral_2_eq_2)
  then show ?thesis using assms by (simp add: is_digit_digit_char digit_val_digit_char)
qed

lemma parse_digits_4:
  assumes "a < 10" "b < 10" "c < 10" "d < 10"
  shows "parse_digits 4 0 (digit_char a # digit_char b # digit_char c # digit_char d # rest)
     = Some (int a * 1000 + int b * 100 + int c * 10 + int d, rest)"
proof -
  have e: "(4::nat) = Suc (Suc (Suc (Suc 0)))" by simp
  show ?thesis
    by (subst e) (simp add: assms is_digit_digit_char digit_val_digit_char)
qed

lemma month_cases: "1 \<le> m \<Longrightarrow> m \<le> 12 \<Longrightarrow> m \<in> {1, 2, 3, 4, 5, 6, 7, 8, 9, 10, 11, 12 :: int}"
  by simp arith

lemma days_in_month_le:
  assumes "1 \<le> m" "m \<le> 12"
  shows "28 \<le> days_in_month y m \<and> days_in_month y m \<le> 31"
  using month_cases [OF assms] by (auto simp: days_in_month_def)

lemma valid_date_bounds:
  "valid_date dt \<Longrightarrow> 1 \<le> year dt \<and> year dt \<le> 9999 \<and> 1 \<le> month dt \<and> month dt \<le> 12 \<and> 1 \<le> day dt \<and> day dt \<le> 31"
  using days_in_month_le [of "month dt" "year dt"]
  by (auto simp: valid_date_def MINYEAR_def MAXYEAR_def)

lemma check_date_args_valid:
  assumes "valid_date dt"
  shows "check_date_args (year dt) (month dt) (day dt) = Inr dt"
  using assms by (simp add: check_date_args_def valid_date_def)

lemma check_date_args_Inr:
  assumes "check_date_args y m d = Inr dt"
  shows "dt = Date y m d \<and> valid_date dt"
proof -
  have "\<not> (y < MINYEAR \<or> MAXYEAR < y)" "\<not> (m < 1 \<or> 12 < m)" "\<not> (d < 1 \<or> days_in_month y m < d)"
    and "dt = Date y m d"
    using assms unfolding check_date_args_def by (simp_all split: if_splits)
  then show ?thesis by (simp add: valid_date_def)
qed

lemma check_date_args_Inl: "check_date_args y m d = Inl e \<Longrightarrow> e = ValueError"
  by (simp add: check_date_args_def split: if_splits)

lemma date_new_valid:
  assumes "valid_date dt"
  shows "date_new (year dt) (month dt) (day dt) = Inr dt"
proof -
  have b: "1 \<le> year dt" "year dt \<le> 9999" "1 \<le> month dt" "month dt \<le> 12" "1 \<le> day dt" "day dt \<le> 31"
    using valid_date_bounds [OF assms] by simp_all
  show ?thesis
    using b by (simp add: date_new_def check_date_args_valid [OF assms])
qed

lemma parse_isoformat_date_digits:
  assumes "y1 < 10" "y2 < 10" "y3 < 10" "y4 < 10" "m1 < 10" "m2 < 10" "d1 < 10" "d2 < 10"
  shows "parse_isoformat_date
           (digit_char y1 # digit_char y2 # digit_char y3 # digit_char y4 # CHR ''-'' #
            digit_char m1 # digit_char m2 # CHR ''-'' # digit_char d1 # digit_char d2 # rest)
         = Some (int y1 * 1000 + int y2 * 100 + int y3 * 10 + int y4,
                 int m1 * 10 + int m2, int d1 * 10 + int d2)"
  using assms digit_char_not_sep [of m1]
  by (simp add: parse_isoformat_date_def parse_digits_4 parse_digits_2)

lemma digits4_value:
  "int (n div 1000) * 1000 + int (n div 100 mod 10) * 100 + int (n div 10 mod 10) * 10 + int (n mod 10) = int n"
proof -
  have a: "n = (n div 10) * 10 + n mod 10" by simp
  have b: "n div 10 = (n div 100) * 10 + n div 10 mod 10"
    using div_mult_mod_eq [of "n div 10" 10] by (simp add: div_mult2_eq [symmetric])
  have c: "n div 100 = (n div 1000) * 10 + n div 100 mod 10"
    using div_mult_mod_eq [of "n div 100" 10] by (simp add: div_mult2_eq [symmetric])
  have "(n div 1000) * 1000 + (n div 100 mod 10) * 100 + (n div 10 mod 10) * 10 + n mod 10 = n"
    using a b c by linarith
  then have "int ((n div 1000) * 1000 + (n div 100 mod 10) * 100 + (n div 10 mod 10) * 10 + n mod 10) = int n"
    by simp
  then show ?thesis by simp
qed

lemma digits2_value: "int (n div 10) * 10 + int (n mod 10) = int n"
  by presburger

lemma isoformat_valid:
  assumes "valid_date dt"
  shows "isoformat dt =
    [digit_char (nat (year dt) div 1000), digit_char (nat (year dt) div 100 mod 10),
     digit_char (nat (year dt) div 10 mod 10), digit_char (nat (year dt) mod 10), CHR ''-'',
     digit_char (nat (month dt) div 10), digit_char (nat (month dt) mod 10), CHR ''-'',
     digit_char (nat (day dt) div 10), digit_char (nat (day dt) mod 10)]"
proof -
  have b: "1 \<le> year dt" "year dt \<le> 9999" "1 \<le> month dt" "month dt \<le> 12" "1 \<le> day dt" "day dt \<le> 31"
    using valid_date_bounds [OF assms] by simp_all
  have "fmt_0d 4 (year dt) = [digit_char (nat (year dt) div 1000), digit_char (nat (year dt) div 100 mod 10),
     digit_char (nat (year dt) div 10 mod 10), digit_char (nat (year dt) mod 10)]"
    using b by (intro fmt_0d_4) simp_all
  moreover have "fmt_0d 2 (month dt) = [digit_char (nat (month dt) div 10), digit_char (nat (month dt) mod 10)]"
    using b by (intro fmt_0d_2) simp_all
  moreover have "fmt_0d 2 (day dt) = [digit_char (nat (day dt) div 10), digit_char (nat (day dt) mod 10)]"
    using b by (intro fmt_0d_2) simp_all
  ultimately show ?thesis by (simp add: isoformat_def)
qed

lemma parse_isoformat_date_isoformat:
  assumes "valid_date dt"
  shows "parse_isoformat_date (isoformat dt @ rest) = Some (year dt, month dt, day dt)"
proof -
  have b: "1 \<le> year dt" "year dt \<le> 9999" "1 \<le> month dt" "month dt \<le> 12" "1 \<le> day dt" "day dt \<le> 31"
    using valid_date_bounds [OF assms] by simp_all
  have y: "nat (year dt) < 10000" and m: "nat (month dt) < 100" and d: "nat (day dt) < 100"
    using b by simp_all
  have "parse_isoformat_date (isoformat dt @ rest) =
      Some (int (nat (year dt) div 1000) * 1000 + int (nat (year dt) div 100 mod 10) * 100
              + int (nat (year dt) div 10 mod 10) * 10 + int (nat (year dt) mod 10),
            int (nat (month dt) div 10) * 10 + int (nat (month dt) mod 10),
            int (nat (day dt) div 10) * 10 + int (nat (day dt) mod 10))"
    unfolding isoformat_valid [OF assms] append_Cons append_Nil
    using y m d by (intro parse_isoformat_date_digits) simp_all
  also have "\<dots> = Some (year dt, month dt, day dt)"
    using digits4_value [of "nat (year dt)"] digits2_value [of "nat (month dt)"] digits2_value [of "nat (day dt)"] b by simp
  finally show ?thesis .
qed

lemma length_isoformat: "valid_date dt \<Longrightarrow> length (isoformat dt) = 10"
  by (simp add: isoformat_valid)

lemma utf8_Nil: "utf8 [] = []"
  by (simp add: utf8_def)

lemma utf8_Cons: "utf8 (c # cs) = utf8_char c @ utf8 cs"
  by (simp add: utf8_def)

lemma utf8_char_digit: "n < 10 \<Longrightarrow> utf8_char (digit_char n) = [digit_char n]"
  using digit_cases [of n] by (auto simp: utf8_char_def digit_char_def)

lemma utf8_char_hyphen: "utf8_char CHR ''-'' = ''-''"
  by (simp add: utf8_char_def)

lemma utf8_isoformat:
  assumes "valid_date dt"
  shows "utf8 (isoformat dt) = isoformat dt"
proof -
  have b: "1 \<le> year dt" "year dt \<le> 9999" "1 \<le> month dt" "month dt \<le> 12" "1 \<le> day dt" "day dt \<le> 31"
    using valid_date_bounds [OF assms] by simp_all
  have "nat (year dt) div 1000 < 10" "nat (year dt) div 100 mod 10 < 10"
    "nat (year dt) div 10 mod 10 < 10" "nat (year dt) mod 10 < 10"
    "nat (month dt) div 10 < 10" "nat (month dt) mod 10 < 10"
    "nat (day dt) div 10 < 10" "nat (day dt) mod 10 < 10"
    using b by simp_all
  then show ?thesis
    by (simp add: isoformat_valid [OF assms] utf8_Cons utf8_Nil utf8_char_digit utf8_char_hyphen)
qed

lemma fromisoformat_isoformat: "valid_date dt \<Longrightarrow> fromisoformat (isoformat dt) = Inr dt"
  using parse_isoformat_date_isoformat [of dt "[]"]
  by (simp add: fromisoformat_def utf8_isoformat length_isoformat check_date_args_valid)

lemma valid_ex: "valid_date (Date 2026 4 17)" "valid_date (Date 2026 12 25)"
  by (simp_all add: valid_date_def MINYEAR_def MAXYEAR_def days_in_month_def is_leap_def)

lemma iso_ex: "isoformat (Date 2026 4 17) = ''2026-04-17''" "isoformat (Date 2026 12 25) = ''2026-12-25''"
  by (simp_all add: isoformat_valid valid_ex digit_char_def)

section \<open>Date parsing\<close>

text \<open>
  Claim C6. \<^verbatim>\<open>parse_iso_date\<close> reads the first ten characters of its argument and
  nothing else. For every calendar date that exists, it accepts the bare string
  \<^verbatim>\<open>YYYY-MM-DD\<close> of that date, and the same string followed by any suffix (a time and a
  zone), and returns that date both times.
\<close>

theorem parse_iso_date_first_ten:
  "parse_iso_date s = fromisoformat (take 10 s) \<and>
   (valid_date dt \<longrightarrow> parse_iso_date (isoformat dt) = Inr dt \<and>
                     parse_iso_date (isoformat dt @ suffix) = Inr dt)"
  by (simp add: parse_iso_date_def length_isoformat fromisoformat_isoformat)

theorem parse_iso_date_first_ten_witness:
  "parse_iso_date ''2026-12-25'' = Inr (Date 2026 12 25) \<and>
   parse_iso_date ''2026-04-17T00:00:00.000Z'' = Inr (Date 2026 4 17)"
  using parse_iso_date_first_ten [of "[]" "Date 2026 12 25" "[]"]
        parse_iso_date_first_ten [of "[]" "Date 2026 4 17" "''T00:00:00.000Z''"]
  by (simp add: valid_ex iso_ex)

section \<open>Escaping\<close>

lemma replace_char_Nil: "replace_char old new [] = []"
  by (simp add: replace_char_def)

lemma replace_char_Cons:
  "replace_char old new (c # cs) = (if c = old then new else [c]) @ replace_char old new cs"
  by (simp add: replace_char_def)

lemma replace_char_append:
  "replace_char old new (xs @ ys) = replace_char old new xs @ replace_char old new ys"
  by (simp add: replace_char_def)

lemma special_chars_distinct:
  "backslash \<noteq> CHR '';''" "backslash \<noteq> CHR '',''" "backslash \<noteq> newline"
  "newline \<noteq> CHR '';''" "newline \<noteq> CHR '',''" "CHR ''n'' \<noteq> newline"
  "CHR ''n'' \<noteq> backslash"
  by (simp_all add: backslash_def newline_def)

lemma ics_escape_Nil: "ics_escape [] = []"
  by (simp add: ics_escape_def replace_char_Nil)

lemma ics_escape_Cons: "ics_escape (c # cs) = escape_char c @ ics_escape cs"
  using special_chars_distinct
  by (auto simp: ics_escape_def escape_char_def replace_char_Cons replace_char_append replace_char_Nil)

lemma ics_escape_concat: "ics_escape s = concat (map escape_char s)"
  by (induction s) (simp_all add: ics_escape_Nil ics_escape_Cons)

lemma ics_escape_append: "ics_escape (xs @ ys) = ics_escape xs @ ics_escape ys"
  by (simp add: ics_escape_concat)

lemma escape_plain:
  "c \<noteq> backslash \<Longrightarrow> c \<noteq> CHR '';'' \<Longrightarrow> c \<noteq> CHR '','' \<Longrightarrow> c \<noteq> newline \<Longrightarrow> escape_char c = [c]"
  by (simp add: escape_char_def)


lemma length_str_nat_pos: "0 < length (str_nat n)"
  by (subst str_nat.simps) simp

lemma length_str_nat_le: "0 < k \<Longrightarrow> (length (str_nat n) \<le> k) = (n < 10 ^ k)"
proof (induction n arbitrary: k rule: str_nat.induct)
  case (1 n)
  show ?case
  proof (cases "n < 10")
    case True
    have "(10::nat) ^ 1 \<le> 10 ^ k"
      using 1(2) by (intro power_increasing) simp_all
    then have "n < 10 ^ k" using True by simp
    moreover have "length (str_nat n) = 1" using True by (simp add: str_nat_1)
    ultimately show ?thesis using 1(2) by simp
  next
    case False
    have len: "length (str_nat n) = Suc (length (str_nat (n div 10)))"
      using False by (subst str_nat.simps) simp
    show ?thesis
    proof (cases k)
      case 0
      then show ?thesis using 1(2) by simp
    next
      case (Suc j)
      show ?thesis
      proof (cases "j = 0")
        case True
        then show ?thesis
          using False len length_str_nat_pos [of "n div 10"] Suc by simp
      next
        case j: False
        have "(length (str_nat (n div 10)) \<le> j) = (n div 10 < 10 ^ j)"
          using 1(1) [OF False, of j] j by simp
        moreover have "(n div 10 < 10 ^ j) = (n < 10 ^ j * 10)"
          by (simp add: div_less_iff_less_mult)
        ultimately show ?thesis using len Suc by (simp add: mult.commute)
      qed
    qed
  qed
qed

lemma str_int_cases:
  "str_int i =
     (if \<bar>i\<bar> < 10 ^ max_str_digits
      then Inr (if i < 0 then CHR ''-'' # str_nat (nat \<bar>i\<bar>) else str_nat (nat \<bar>i\<bar>))
      else Inl ValueError)"
proof -
  have pos: "0 < max_str_digits" by (simp add: max_str_digits_def)
  have "(nat \<bar>i\<bar> < 10 ^ max_str_digits) = (\<bar>i\<bar> < 10 ^ max_str_digits)"
  proof -
    have "(nat \<bar>i\<bar> < 10 ^ max_str_digits) = (int (nat \<bar>i\<bar>) < int (10 ^ max_str_digits))"
      by (simp only: of_nat_less_iff)
    then show ?thesis by simp
  qed
  then have "(length (str_nat (nat \<bar>i\<bar>)) \<le> max_str_digits) = (\<bar>i\<bar> < 10 ^ max_str_digits)"
    using length_str_nat_le [OF pos, of "nat \<bar>i\<bar>"] by simp
  then show ?thesis
    by (simp add: str_int_def Let_def not_le [symmetric])
qed

lemma str_int_Inl: "str_int i = Inl e \<Longrightarrow> e = ValueError"
  by (simp add: str_int_def Let_def split: if_splits)

lemma small_id: "\<bar>i\<bar> < 10000 \<Longrightarrow> \<bar>i :: int\<bar> < 10 ^ max_str_digits"
proof -
  assume a: "\<bar>i\<bar> < 10000"
  have "(10::int) ^ 4 \<le> 10 ^ max_str_digits"
    by (intro power_increasing) (simp_all add: max_str_digits_def)
  then show ?thesis using a by simp
qed

lemma str_int_small:
  "0 \<le> i \<Longrightarrow> i < 10000 \<Longrightarrow> str_int i = Inr (str_nat (nat i))"
  using small_id [of i] by (simp add: str_int_cases)

lemma str_int_ex: "str_int 1 = Inr ''1''" "str_int 123 = Inr ''123''"
  by (simp_all add: str_int_small str_nat_1 str_nat_3 digit_char_def)

lemma str_nat_plain: "escape_char c = [c]" if "c \<in> set (str_nat n)"
  using that
proof (induction n rule: str_nat.induct)
  case (1 n)
  have d: "escape_char (digit_char k) = [digit_char k]" if "k < 10" for k
    using digit_cases [OF that]
    by (auto simp: escape_char_def digit_char_def backslash_def newline_def)
  show ?case
  proof (cases "n < 10")
    case True
    then show ?thesis using 1(2) d by (simp add: str_nat_1)
  next
    case False
    have "str_nat n = str_nat (n div 10) @ [digit_char (n mod 10)]"
      using False by (subst str_nat.simps) simp
    then have "set (str_nat n) = insert (digit_char (n mod 10)) (set (str_nat (n div 10)))"
      by (simp only: set_append list.set Un_insert_right Un_empty_right)
    then have "c \<in> set (str_nat (n div 10)) \<or> c = digit_char (n mod 10)"
      using 1(2) by blast
    then show ?thesis using 1(1) [OF False] d [of "n mod 10"] by auto
  qed
qed

lemma ics_escape_plain: "(\<And>c. c \<in> set s \<Longrightarrow> escape_char c = [c]) \<Longrightarrow> ics_escape s = s"
  by (induction s) (simp_all add: ics_escape_Nil ics_escape_Cons)

lemma str_int_plain: "str_int i = Inr t \<Longrightarrow> ics_escape t = t"
proof -
  assume a: "str_int i = Inr t"
  have m: "escape_char CHR ''-'' = ''-''"
    by (simp add: escape_char_def backslash_def newline_def)
  have "t = CHR ''-'' # str_nat (nat \<bar>i\<bar>) \<or> t = str_nat (nat \<bar>i\<bar>)"
    using a by (auto simp: str_int_def Let_def split: if_splits)
  then show ?thesis
    using m str_nat_plain [of _ "nat \<bar>i\<bar>"] by (intro ics_escape_plain) auto
qed

lemma uid_Inl: "uid m u = Inl e \<Longrightarrow> e = ValueError \<and> str_int (tmdb_id m) = Inl ValueError"
  using str_int_Inl by (auto simp: uid_def split: sum.splits)


lemma event_dates_month_end:
  "event_dates \<lparr>tmdb_id = 1, title = ''A'', release_date = Some ''2026-04-30'', tmdb_url = ''u''\<rparr>
     = Inr (Date 2026 4 30, Date 2026 5 1)"
  by code_simp

lemma event_dates_max:
  "event_dates \<lparr>tmdb_id = 1, title = ''A'', release_date = Some ''9999-12-31'', tmdb_url = ''u''\<rparr>
     = Inl OverflowError"
  by code_simp



section \<open>Calendar arithmetic\<close>

lemma div_pred_dvd:
  fixes y k :: int
  assumes "0 < k" "y mod k = 0"
  shows "(y - 1) div k = y div k - 1"
proof -
  have "y = k * (y div k)" using assms by (simp add: mod_eq_0_iff_dvd)
  then have "y - 1 = k * (y div k - 1) + (k - 1)" by (simp add: algebra_simps)
  moreover have "0 \<le> k - 1" "k - 1 < k" using assms by simp_all
  ultimately show ?thesis
    by (metis int_div_pos_eq)
qed

lemma div_pred_not_dvd:
  fixes y k :: int
  assumes "0 < k" "y mod k \<noteq> 0"
  shows "(y - 1) div k = y div k"
proof -
  have "0 \<le> y mod k" using assms(1) by simp
  then have r1: "0 < y mod k" using assms(2) by linarith
  have r2: "y mod k < k" using assms(1) by simp
  have "y = k * (y div k) + y mod k" by simp
  then have "y - 1 = k * (y div k) + (y mod k - 1)" by linarith
  moreover have "0 \<le> y mod k - 1" "y mod k - 1 < k" using r1 r2 by simp_all
  ultimately show ?thesis
    by (metis int_div_pos_eq)
qed

lemma div_pred:
  fixes y k :: int
  assumes "0 < k"
  shows "(y - 1) div k = y div k - (if y mod k = 0 then 1 else 0)"
  using div_pred_dvd [OF assms] div_pred_not_dvd [OF assms] by simp

lemma leap_mods:
  fixes y :: int
  shows "y mod 400 = 0 \<Longrightarrow> y mod 100 = 0" and "y mod 100 = 0 \<Longrightarrow> y mod 4 = 0"
  using mod_mod_cancel [of 100 400 y] mod_mod_cancel [of 4 100 y] by simp_all

lemma days_before_year_Suc:
  "days_before_year (y + 1) = days_before_year y + 365 + (if is_leap y then 1 else 0)"
proof -
  define a b c where "a = y div 4" and "b = y div 100" and "c = y div 400"
  define p q r where "p = (y mod 4 = 0)" and "q = (y mod 100 = 0)" and "r = (y mod 400 = 0)"
  have d4: "(y - 1) div 4 = a - (if p then 1 else 0)"
    unfolding a_def p_def by (rule div_pred) simp
  have d100: "(y - 1) div 100 = b - (if q then 1 else 0)"
    unfolding b_def q_def by (rule div_pred) simp
  have d400: "(y - 1) div 400 = c - (if r then 1 else 0)"
    unfolding c_def r_def by (rule div_pred) simp
  have imp: "r \<longrightarrow> q" "q \<longrightarrow> p"
    unfolding p_def q_def r_def by (simp_all add: leap_mods)
  have l: "is_leap y = (p \<and> (\<not> q \<or> r))"
    by (simp add: is_leap_def p_def q_def r_def)
  have n: "days_before_year (y + 1) = y * 365 + a - b + c"
    by (simp add: days_before_year_def a_def b_def c_def)
  have o: "days_before_year y = (y - 1) * 365 + (a - (if p then 1 else 0))
        - (b - (if q then 1 else 0)) + (c - (if r then 1 else 0))"
    unfolding days_before_year_def d4 d100 d400 by (rule refl)
  show ?thesis
    unfolding n o l using imp by (cases p; cases q; cases r) simp_all
qed

lemma days_before_month_Suc:
  assumes "1 \<le> m" "m \<le> 11"
  shows "days_before_month y (m + 1) = days_before_month y m + days_in_month y m"
proof -
  have "m \<in> {1, 2, 3, 4, 5, 6, 7, 8, 9, 10, 11}" using assms by simp arith
  then show ?thesis
    by (auto simp: days_before_month_def days_in_month_def)
qed

lemma days_before_month_1: "days_before_month y 1 = 0"
  by (simp add: days_before_month_def)

lemma days_before_month_12: "days_before_month y 12 = 334 + (if is_leap y then 1 else 0)"
  by (simp add: days_before_month_def)

lemma days_in_month_12: "days_in_month y 12 = 31"
  by (simp add: days_in_month_def)

lemma days_in_month_ge_1: "1 \<le> m \<Longrightarrow> m \<le> 12 \<Longrightarrow> 1 \<le> days_in_month y m"
  using days_in_month_le [of m y] by simp

lemma date_add_one_day:
  assumes v: "valid_date dt" and nm: "dt \<noteq> Date 9999 12 31"
  shows "\<exists>e. date_add_days dt 1 = Inr e \<and> valid_date e \<and> toordinal e = toordinal dt + 1"
proof -
  obtain y m d where dt: "dt = Date y m d" by (cases dt)
  have b: "1 \<le> y" "y \<le> 9999" "1 \<le> m" "m \<le> 12" "1 \<le> d" "d \<le> days_in_month y m"
    using v by (simp_all add: dt valid_date_def MINYEAR_def MAXYEAR_def)
  show ?thesis
  proof (cases "d < days_in_month y m")
    case True
    then have "date_add_days dt 1 = Inr (Date y m (d + 1))"
      using b by (simp add: dt date_add_days_def check_year_def MINYEAR_def MAXYEAR_def Let_def)
    moreover have "valid_date (Date y m (d + 1))"
      using b True by (simp add: valid_date_def MINYEAR_def MAXYEAR_def)
    moreover have "toordinal (Date y m (d + 1)) = toordinal dt + 1"
      by (simp add: dt toordinal_def ymd_to_ord_def)
    ultimately show ?thesis by blast
  next
    case False
    then have last: "d = days_in_month y m" using b by simp
    show ?thesis
    proof (cases "m = 12")
      case True
      then have d31: "d = 31" using last by (simp add: days_in_month_12)
      then have y: "y \<noteq> 9999" using nm True by (simp add: dt)
      then have "date_add_days dt 1 = Inr (Date (y + 1) 1 1)"
        using b True d31
        by (simp add: dt date_add_days_def check_year_def MINYEAR_def MAXYEAR_def Let_def days_in_month_12)
      moreover have "valid_date (Date (y + 1) 1 1)"
        using b y by (simp add: valid_date_def MINYEAR_def MAXYEAR_def days_in_month_def)
      moreover have "toordinal (Date (y + 1) 1 1) = toordinal dt + 1"
        using True d31
        by (simp add: dt toordinal_def ymd_to_ord_def days_before_year_Suc days_before_month_1
              days_before_month_12)
      ultimately show ?thesis by blast
    next
      case False
      then have m11: "m \<le> 11" using b by simp
      have "date_add_days dt 1 = Inr (Date y (m + 1) 1)"
        using b m11 last
        by (simp add: dt date_add_days_def check_year_def MINYEAR_def MAXYEAR_def Let_def)
      moreover have "valid_date (Date y (m + 1) 1)"
        using b m11 days_in_month_ge_1 [of "m + 1" y]
        by (simp add: valid_date_def MINYEAR_def MAXYEAR_def)
      moreover have "toordinal (Date y (m + 1) 1) = toordinal dt + 1"
        using b m11 last
        by (simp add: dt toordinal_def ymd_to_ord_def days_before_month_Suc)
      ultimately show ?thesis by blast
    qed
  qed
qed

lemma date_add_one_day_max: "date_add_days (Date 9999 12 31) 1 = Inl OverflowError"
  by (simp add: date_add_days_def check_year_def MINYEAR_def MAXYEAR_def Let_def days_in_month_12)

lemma digit_char_plain:
  "n < 10 \<Longrightarrow> \<not> is_space (digit_char n) \<and> digit_char n \<noteq> CHR ''+'' \<and> digit_char n \<noteq> CHR ''-''"
  using digit_cases [of n] by (auto simp: digit_char_def is_space_def)

lemma strip_digits:
  assumes "s \<noteq> []" "\<not> is_space (hd s)" "\<not> is_space (last s)"
  shows "strip s = s"
proof -
  have 1: "dropWhile is_space s = s" using assms by (cases s) simp_all
  have "rev s \<noteq> []" "\<not> is_space (hd (rev s))" using assms by (simp_all add: hd_rev)
  then have 2: "dropWhile is_space (rev s) = rev s" by (cases "rev s") simp_all
  show ?thesis by (simp add: strip_def 1 2)
qed

lemma py_int_2:
  assumes "a < 10" "b < 10"
  shows "py_int [digit_char a, digit_char b] = Inr (int a * 10 + int b)"
proof -
  have s: "strip [digit_char a, digit_char b] = [digit_char a, digit_char b]"
    using assms digit_char_plain by (intro strip_digits) simp_all
  show ?thesis
    using assms digit_char_plain [of a]
    by (simp add: py_int_def s is_digit_digit_char digit_val_digit_char)
qed

lemma py_int_4:
  assumes "a < 10" "b < 10" "c < 10" "d < 10"
  shows "py_int [digit_char a, digit_char b, digit_char c, digit_char d]
           = Inr (int a * 1000 + int b * 100 + int c * 10 + int d)"
proof -
  have s: "strip [digit_char a, digit_char b, digit_char c, digit_char d]
             = [digit_char a, digit_char b, digit_char c, digit_char d]"
    using assms digit_char_plain by (intro strip_digits) simp_all
  show ?thesis
    using assms digit_char_plain [of a]
    by (simp add: py_int_def s is_digit_digit_char digit_val_digit_char)
qed

lemma split_on_iso:
  assumes "y1 < 10" "y2 < 10" "y3 < 10" "y4 < 10" "m1 < 10" "m2 < 10" "d1 < 10" "d2 < 10"
  shows "split_on CHR ''-''
           [digit_char y1, digit_char y2, digit_char y3, digit_char y4, CHR ''-'',
            digit_char m1, digit_char m2, CHR ''-'', digit_char d1, digit_char d2]
         = [[digit_char y1, digit_char y2, digit_char y3, digit_char y4],
            [digit_char m1, digit_char m2], [digit_char d1, digit_char d2]]"
  using assms digit_char_plain by (simp add: split_on_def)

lemma unpack_ymd_isoformat:
  assumes "valid_date dt"
  shows "unpack_ymd (isoformat dt) = Inr (year dt, month dt, day dt)"
proof -
  have b: "1 \<le> year dt" "year dt \<le> 9999" "1 \<le> month dt" "month dt \<le> 12" "1 \<le> day dt" "day dt \<le> 31"
    using valid_date_bounds [OF assms] by simp_all
  have y: "nat (year dt) < 10000" and m: "nat (month dt) < 100" and d: "nat (day dt) < 100"
    using b by simp_all
  have dg: "nat (year dt) div 1000 < 10" "nat (year dt) div 100 mod 10 < 10"
    "nat (year dt) div 10 mod 10 < 10" "nat (year dt) mod 10 < 10"
    "nat (month dt) div 10 < 10" "nat (month dt) mod 10 < 10"
    "nat (day dt) div 10 < 10" "nat (day dt) mod 10 < 10"
    using y m d by simp_all
  show ?thesis
    unfolding unpack_ymd_def isoformat_valid [OF assms] split_on_iso [OF dg]
    using dg b
    by (simp add: py_int_4 py_int_2 digits4_value digits2_value)
qed

lemma event_dates_isoformat:
  assumes "valid_date start" "start \<noteq> Date 9999 12 31" "release_date m = Some (isoformat start)"
  shows "\<exists>e. event_dates m = Inr (start, e) \<and> valid_date e \<and> toordinal e = toordinal start + 1"
proof -
  obtain e where e: "date_add_days start 1 = Inr e" "valid_date e" "toordinal e = toordinal start + 1"
    using date_add_one_day [OF assms(1,2)] by blast
  have "event_dates m = Inr (start, e)"
    by (simp add: event_dates_def assms(3) unpack_ymd_isoformat [OF assms(1)] date_new_valid [OF assms(1)] e(1))
  then show ?thesis using e by blast
qed

lemma build_single:
  "event_lines m ts u = Inr ls \<Longrightarrow>
   build_ics_events [m] ts u = Inr (join [newline] (header u @ ls @ [''END:VCALENDAR'']) @ [newline])"
  by (simp add: build_ics_events_def)

lemma valid_ex2: "valid_date (Date 2026 4 30)" "valid_date (Date 9999 12 31)"
  by (simp_all add: valid_date_def MINYEAR_def MAXYEAR_def days_in_month_def is_leap_def)

lemma iso_ex2: "isoformat (Date 2026 4 30) = ''2026-04-30''" "isoformat (Date 9999 12 31) = ''9999-12-31''"
  by (simp_all add: isoformat_valid valid_ex2 digit_char_def)

lemma yyyymmdd_ex: "yyyymmdd (Date 2026 4 30) = ''20260430''" "yyyymmdd (Date 2026 5 1) = ''20260501''"
  by (simp_all add: yyyymmdd_def fmt_0d_4 fmt_0d_2 digit_char_def)

section \<open>The end date of an event\<close>

text \<open>
  Claim C5, as the code has it. For every date that exists other than 9999-12-31 and every
  movie whose release date is the ISO string of that date, the event of the movie starts on
  that date and ends on a date that exists and is exactly one day later (its ordinal is the
  start's plus one): month and year boundaries included. When the catalog id of the movie
  has at most 4300 decimal digits, the fourth and fifth line of the event carry the two
  dates, and the event is part of the document the builder returns. When the id has more
  digits, writing it into the identifier raises ValueError and there is no event.
\<close>

theorem event_end_is_next_day:
  assumes "valid_date start" "start \<noteq> Date 9999 12 31" "release_date m = Some (isoformat start)"
  shows "\<exists>e. event_dates m = Inr (start, e) \<and> valid_date e \<and> toordinal e = toordinal start + 1 \<and>
           (\<bar>tmdb_id m\<bar> < 10 ^ max_str_digits \<longrightarrow>
              (\<exists>ls. event_lines m dtstamp_utc username = Inr ls \<and>
                 ls ! 3 = ''DTSTART;VALUE=DATE:'' @ yyyymmdd start \<and>
                 ls ! 4 = ''DTEND;VALUE=DATE:'' @ yyyymmdd e \<and>
                 build_ics_events [m] dtstamp_utc username =
                   Inr (join [newline] (header username @ ls @ [''END:VCALENDAR'']) @ [newline]))) \<and>
           (10 ^ max_str_digits \<le> \<bar>tmdb_id m\<bar> \<longrightarrow>
              event_lines m dtstamp_utc username = Inl ValueError \<and>
              build_ics_events [m] dtstamp_utc username = Inl ValueError)"
proof -
  obtain e where e: "event_dates m = Inr (start, e)" "valid_date e" "toordinal e = toordinal start + 1"
    using event_dates_isoformat [OF assms] by blast
  have small: "\<exists>ls. event_lines m dtstamp_utc username = Inr ls \<and>
                 ls ! 3 = ''DTSTART;VALUE=DATE:'' @ yyyymmdd start \<and>
                 ls ! 4 = ''DTEND;VALUE=DATE:'' @ yyyymmdd e \<and>
                 build_ics_events [m] dtstamp_utc username =
                   Inr (join [newline] (header username @ ls @ [''END:VCALENDAR'']) @ [newline])"
    if "\<bar>tmdb_id m\<bar> < 10 ^ max_str_digits"
  proof -
    have "\<exists>ident. str_int (tmdb_id m) = Inr ident"
      by (subst str_int_cases) (simp add: that)
    then obtain ident where ident: "str_int (tmdb_id m) = Inr ident"
      by blast
    define ls where "ls = [''BEGIN:VEVENT'',
               ''UID:'' @ ics_escape (''tmdb-'' @ ident @ ''-'' @ username @ ''@film-release-tracker''),
               ''DTSTAMP:'' @ dtstamp_utc,
               ''DTSTART;VALUE=DATE:'' @ yyyymmdd start,
               ''DTEND;VALUE=DATE:'' @ yyyymmdd e,
               ''SUMMARY:'' @ ics_escape (summary m),
               ''DESCRIPTION:'' @ ics_escape (desc m),
               ''STATUS:CONFIRMED'',
               ''TRANSP:TRANSPARENT'',
               ''END:VEVENT'']"
    have l: "event_lines m dtstamp_utc username = Inr ls"
      by (simp add: event_lines_def uid_def ident e(1) ls_def)
    have "ls ! 3 = ''DTSTART;VALUE=DATE:'' @ yyyymmdd start" "ls ! 4 = ''DTEND;VALUE=DATE:'' @ yyyymmdd e"
      by (simp_all add: ls_def)
    then show ?thesis using l build_single [OF l] by blast
  qed
  have large: "event_lines m dtstamp_utc username = Inl ValueError \<and>
              build_ics_events [m] dtstamp_utc username = Inl ValueError"
    if "10 ^ max_str_digits \<le> \<bar>tmdb_id m\<bar>"
  proof -
    have "\<not> \<bar>tmdb_id m\<bar> < 10 ^ max_str_digits"
      using that by simp
    then have "str_int (tmdb_id m) = Inl ValueError"
      by (subst str_int_cases) simp
    then have "event_lines m dtstamp_utc username = Inl ValueError"
      by (simp add: event_lines_def uid_def e(1))
    then show ?thesis by (simp add: build_ics_events_def)
  qed
  show ?thesis using e small large by blast
qed

theorem event_end_is_next_day_witness:
  "event_lines \<lparr>tmdb_id = 1, title = ''A'', release_date = Some ''2026-04-30'', tmdb_url = ''u''\<rparr>
       ''20260101T000000Z'' ''alice''
     = Inr [''BEGIN:VEVENT'',
            ''UID:tmdb-1-alice@film-release-tracker'',
            ''DTSTAMP:20260101T000000Z'',
            ''DTSTART;VALUE=DATE:20260430'',
            ''DTEND;VALUE=DATE:20260501'',
            ''SUMMARY:A (UK theatrical release)'',
            ''DESCRIPTION:TMDb: u'',
            ''STATUS:CONFIRMED'',
            ''TRANSP:TRANSPARENT'',
            ''END:VEVENT''] \<and>
   toordinal (Date 2026 5 1) = toordinal (Date 2026 4 30) + 1"
proof -
  let ?m = "\<lparr>tmdb_id = 1, title = ''A'', release_date = Some ''2026-04-30'', tmdb_url = ''u''\<rparr>"
  have r: "release_date ?m = Some (isoformat (Date 2026 4 30))"
    by (simp add: iso_ex2)
  have i: "\<bar>tmdb_id ?m\<bar> < 10 ^ max_str_digits"
    using small_id [of 1] by simp
  obtain e ls where e: "event_dates ?m = Inr (Date 2026 4 30, e)"
      "toordinal e = toordinal (Date 2026 4 30) + 1"
      "event_lines ?m ''20260101T000000Z'' ''alice'' = Inr ls"
    using event_end_is_next_day [OF valid_ex2(1) _ r, of "''20260101T000000Z''" "''alice''"] i
    by auto
  have "e = Date 2026 5 1"
    using e(1) event_dates_month_end by simp
  then show ?thesis
    using e(1,2)
    by (simp add: event_lines_def yyyymmdd_ex uid_def str_int_ex
          summary_def desc_def ics_escape_concat escape_char_def backslash_def newline_def)
qed

text \<open>
  The claim as stated fails at the last date of the calendar: 9999-12-31 is a valid release
  date, and the builder raises OverflowError for it instead of emitting an event.
\<close>

theorem event_end_max_date_counterexample:
  "valid_date (Date 9999 12 31) \<and> isoformat (Date 9999 12 31) = ''9999-12-31'' \<and>
   build_ics_events [\<lparr>tmdb_id = 1, title = ''A'', release_date = Some ''9999-12-31'', tmdb_url = ''u''\<rparr>]
       ''20260101T000000Z'' ''alice'' = Inl OverflowError"
  by (simp add: valid_ex2 iso_ex2 build_ics_events_def event_lines_def event_dates_max)

section \<open>Documents of different users\<close>
















lemma event_dates_test_movie:
  "event_dates \<lparr>tmdb_id = 123, title = ''Test Movie'', release_date = Some ''2026-04-17'',
                 tmdb_url = ''https://www.themoviedb.org/movie/123''\<rparr>
     = Inr (Date 2026 4 17, Date 2026 4 18)"
  by code_simp


lemma uid_text_test_movie:
  "ics_escape ''tmdb-123-alice@film-release-tracker'' = ''tmdb-123-alice@film-release-tracker''"
  "ics_escape ''tmdb-123-bob@film-release-tracker'' = ''tmdb-123-bob@film-release-tracker''"
  "ics_escape ''tmdb-123@film-release-tracker'' = ''tmdb-123@film-release-tracker''"
  by (simp_all add: ics_escape_concat escape_char_def backslash_def newline_def)

lemma texts_test_movie:
  "ics_escape (summary \<lparr>tmdb_id = i, title = ''Test Movie'', release_date = r, tmdb_url = l\<rparr>)
     = ''Test Movie (UK theatrical release)''"
  "ics_escape (desc \<lparr>tmdb_id = i, title = t, release_date = r,
       tmdb_url = ''https://www.themoviedb.org/movie/123''\<rparr>)
     = ''TMDb: https://www.themoviedb.org/movie/123''"
  by (simp_all add: summary_def desc_def ics_escape_concat escape_char_def backslash_def newline_def)

lemma yyyymmdd_test_movie:
  "yyyymmdd (Date 2026 4 17) = ''20260417''" "yyyymmdd (Date 2026 4 18) = ''20260418''"
  by (simp_all add: yyyymmdd_def fmt_0d_4 fmt_0d_2 digit_char_def)



section \<open>The builder without a user identifier\<close>

lemma spec_identifier_Some: "spec_identifier m (Some u) = uid m u"
  by (simp add: spec_identifier_def uid_def split: sum.splits)

lemma spec_event_Some: "spec_event m ts (Some u) = event_lines m ts u"
  by (simp add: spec_event_def event_lines_def spec_identifier_Some split: sum.splits prod.splits)

lemma spec_events_Some: "spec_events ms ts (Some u) = events ms ts u"
  by (induction ms) (simp_all add: spec_event_Some split: sum.splits)

lemma spec_identifier_None:
  "spec_identifier m None =
     (case str_int (tmdb_id m) of
        Inl e \<Rightarrow> Inl e
      | Inr ident \<Rightarrow> Inr (''tmdb-'' @ ident @ ''@film-release-tracker''))"
  by (simp add: spec_identifier_def split: sum.splits)

lemma generic_identifier_plain:
  assumes "str_int i = Inr ident"
  shows "ics_escape (''tmdb-'' @ ident @ ''@film-release-tracker'')
           = ''tmdb-'' @ ident @ ''@film-release-tracker''"
proof -
  have "ics_escape ''tmdb-'' = ''tmdb-''"
    "ics_escape ''@film-release-tracker'' = ''@film-release-tracker''"
    by (simp_all add: ics_escape_concat escape_char_def backslash_def newline_def)
  then show ?thesis
    using str_int_plain [OF assms] by (simp only: ics_escape_append)
qed

lemma spec_event_None:
  assumes "spec_event m ts None = Inr ls"
  shows "\<exists>ident start end_date.
           str_int (tmdb_id m) = Inr ident \<and> event_dates m = Inr (start, end_date) \<and>
           ls = [''BEGIN:VEVENT'',
                 ''UID:tmdb-'' @ ident @ ''@film-release-tracker'',
                 ''DTSTAMP:'' @ ts,
                 ''DTSTART;VALUE=DATE:'' @ yyyymmdd start,
                 ''DTEND;VALUE=DATE:'' @ yyyymmdd end_date,
                 ''SUMMARY:'' @ ics_escape (summary m),
                 ''DESCRIPTION:'' @ ics_escape (desc m),
                 ''STATUS:CONFIRMED'',
                 ''TRANSP:TRANSPARENT'',
                 ''END:VEVENT'']"
proof -
  obtain start end_date where d: "event_dates m = Inr (start, end_date)"
    using assms by (auto simp: spec_event_def split: sum.splits)
  obtain ident where i: "str_int (tmdb_id m) = Inr ident"
    using assms d by (auto simp: spec_event_def spec_identifier_None split: sum.splits)
  have "ls = [''BEGIN:VEVENT'',
                 ''UID:'' @ ics_escape (''tmdb-'' @ ident @ ''@film-release-tracker''),
                 ''DTSTAMP:'' @ ts,
                 ''DTSTART;VALUE=DATE:'' @ yyyymmdd start,
                 ''DTEND;VALUE=DATE:'' @ yyyymmdd end_date,
                 ''SUMMARY:'' @ ics_escape (summary m),
                 ''DESCRIPTION:'' @ ics_escape (desc m),
                 ''STATUS:CONFIRMED'',
                 ''TRANSP:TRANSPARENT'',
                 ''END:VEVENT'']"
    using assms d i by (simp add: spec_event_def spec_identifier_None)
  then show ?thesis
    using d i generic_identifier_plain [OF i] by simp
qed

lemma spec_event_user:
  "(case (spec_event m ts None, event_lines m ts u) of
      (Inr ls, Inr ls') \<Rightarrow> True
    | (Inl e, Inl e') \<Rightarrow> e = e'
    | _ \<Rightarrow> False)"
  by (simp add: spec_event_def event_lines_def spec_identifier_None uid_def split: sum.splits prod.splits)

lemma spec_events_user:
  "(case (spec_events ms ts None, events ms ts u) of
      (Inr ls, Inr ls') \<Rightarrow> True
    | (Inl e, Inl e') \<Rightarrow> e = e'
    | _ \<Rightarrow> False)"
proof (induction ms)
  case Nil
  show ?case by simp
next
  case (Cons m ms)
  show ?case
    using Cons.IH spec_event_user [of m ts u]
    by (auto split: sum.splits)
qed

lemma spec_events_None:
  "spec_events ms ts None = Inr ls \<Longrightarrow> m \<in> set ms \<Longrightarrow>
   \<exists>ident. str_int (tmdb_id m) = Inr ident \<and>
     ''UID:tmdb-'' @ ident @ ''@film-release-tracker'' \<in> set ls"
proof (induction ms arbitrary: ls)
  case Nil
  then show ?case by simp
next
  case (Cons a ms)
  obtain l1 where l1: "spec_event a ts None = Inr l1"
    using Cons.prems(1) by (cases "spec_event a ts None") simp_all
  obtain rest where rest: "spec_events ms ts None = Inr rest"
    using Cons.prems(1) l1 by (cases "spec_events ms ts None") simp_all
  have ls: "ls = l1 @ rest" using Cons.prems(1) l1 rest by simp
  show ?case
  proof (cases "m = a")
    case True
    obtain ident where "str_int (tmdb_id a) = Inr ident"
      "''UID:tmdb-'' @ ident @ ''@film-release-tracker'' \<in> set l1"
      using spec_event_None [OF l1] by auto
    then show ?thesis using True ls by auto
  next
    case False
    then have "m \<in> set ms" using Cons.prems(2) by simp
    then obtain ident where "str_int (tmdb_id m) = Inr ident"
      "''UID:tmdb-'' @ ident @ ''@film-release-tracker'' \<in> set rest"
      using Cons.IH [OF rest] by blast
    then show ?thesis using ls by auto
  qed
qed

lemma spec_event_test_movie:
  "spec_event \<lparr>tmdb_id = 123, title = ''Test Movie'', release_date = Some ''2026-04-17'',
                 tmdb_url = ''https://www.themoviedb.org/movie/123''\<rparr> ''20260101T000000Z'' None =
     Inr [''BEGIN:VEVENT'',
          ''UID:tmdb-123@film-release-tracker'',
          ''DTSTAMP:20260101T000000Z'',
          ''DTSTART;VALUE=DATE:20260417'',
          ''DTEND;VALUE=DATE:20260418'',
          ''SUMMARY:Test Movie (UK theatrical release)'',
          ''DESCRIPTION:TMDb: https://www.themoviedb.org/movie/123'',
          ''STATUS:CONFIRMED'',
          ''TRANSP:TRANSPARENT'',
          ''END:VEVENT'']"
  by (simp add: spec_event_def spec_identifier_None str_int_ex event_dates_test_movie
        uid_text_test_movie texts_test_movie yyyymmdd_test_movie)

text \<open>
  Claim C9, for the builder of the specification. The user identifier is optional. With one,
  the builder is the multi-user builder of the sources. Without one, it returns a document
  exactly when the multi-user builder does for any user, and raises the same exception when
  that one raises. The document without a user identifier is generic: its header has the
  product id \<^verbatim>\<open>-//Film Release Tracker//EN\<close> and no user, and for every movie it has the
  identifier line \<^verbatim>\<open>UID:tmdb-<id>@film-release-tracker\<close>, which the escaping leaves as it
  is: no user segment and no hyphen of one.
\<close>

theorem user_identifier_is_optional:
  "spec_build generic movies timestamp_utc (Some u) = build_ics_events movies timestamp_utc u \<and>
   (case (spec_build generic movies timestamp_utc None, build_ics_events movies timestamp_utc u) of
      (Inr doc, Inr doc') \<Rightarrow> True
    | (Inl e, Inl e') \<Rightarrow> e = e'
    | _ \<Rightarrow> False) \<and>
   (spec_events movies timestamp_utc None = Inr ls \<longrightarrow>
      spec_build generic movies timestamp_utc None =
        Inr (join [newline]
               ([''BEGIN:VCALENDAR'', ''VERSION:2.0'', ''PRODID:-//Film Release Tracker//EN'',
                 ''CALSCALE:GREGORIAN'', ''METHOD:PUBLISH''] @ generic @ ls @ [''END:VCALENDAR''])
             @ [newline]) \<and>
      (\<forall>m \<in> set movies.
         \<exists>ident. str_int (tmdb_id m) = Inr ident \<and>
           spec_identifier m None = Inr (''tmdb-'' @ ident @ ''@film-release-tracker'') \<and>
           ''UID:tmdb-'' @ ident @ ''@film-release-tracker'' \<in> set ls))"
proof (intro conjI impI ballI)
  show "spec_build generic movies timestamp_utc (Some u) = build_ics_events movies timestamp_utc u"
    by (simp add: spec_build_def build_ics_events_def spec_events_Some spec_header_def
          split: sum.splits)
next
  show "case (spec_build generic movies timestamp_utc None, build_ics_events movies timestamp_utc u) of
      (Inr doc, Inr doc') \<Rightarrow> True
    | (Inl e, Inl e') \<Rightarrow> e = e'
    | _ \<Rightarrow> False"
    using spec_events_user [of movies timestamp_utc u]
    by (auto simp: spec_build_def build_ics_events_def split: sum.splits)
next
  assume "spec_events movies timestamp_utc None = Inr ls"
  then show "spec_build generic movies timestamp_utc None =
        Inr (join [newline]
               ([''BEGIN:VCALENDAR'', ''VERSION:2.0'', ''PRODID:-//Film Release Tracker//EN'',
                 ''CALSCALE:GREGORIAN'', ''METHOD:PUBLISH''] @ generic @ ls @ [''END:VCALENDAR''])
             @ [newline])"
    by (simp add: spec_build_def spec_header_def)
next
  fix m
  assume ls: "spec_events movies timestamp_utc None = Inr ls" and m: "m \<in> set movies"
  obtain ident where i: "str_int (tmdb_id m) = Inr ident"
      "''UID:tmdb-'' @ ident @ ''@film-release-tracker'' \<in> set ls"
    using spec_events_None [OF ls m] by blast
  then show "\<exists>ident. str_int (tmdb_id m) = Inr ident \<and>
           spec_identifier m None = Inr (''tmdb-'' @ ident @ ''@film-release-tracker'') \<and>
           ''UID:tmdb-'' @ ident @ ''@film-release-tracker'' \<in> set ls"
    by (simp add: spec_identifier_None)
qed

theorem user_identifier_is_optional_witness:
  "spec_build [] [\<lparr>tmdb_id = 123, title = ''Test Movie'', release_date = Some ''2026-04-17'',
                 tmdb_url = ''https://www.themoviedb.org/movie/123''\<rparr>] ''20260101T000000Z'' None =
     Inr (join [newline]
            [''BEGIN:VCALENDAR'',
             ''VERSION:2.0'',
             ''PRODID:-//Film Release Tracker//EN'',
             ''CALSCALE:GREGORIAN'',
             ''METHOD:PUBLISH'',
             ''BEGIN:VEVENT'',
             ''UID:tmdb-123@film-release-tracker'',
             ''DTSTAMP:20260101T000000Z'',
             ''DTSTART;VALUE=DATE:20260417'',
             ''DTEND;VALUE=DATE:20260418'',
             ''SUMMARY:Test Movie (UK theatrical release)'',
             ''DESCRIPTION:TMDb: https://www.themoviedb.org/movie/123'',
             ''STATUS:CONFIRMED'',
             ''TRANSP:TRANSPARENT'',
             ''END:VEVENT'',
             ''END:VCALENDAR''] @ [newline]) \<and>
   spec_identifier \<lparr>tmdb_id = 123, title = ''Test Movie'', release_date = Some ''2026-04-17'',
                 tmdb_url = ''https://www.themoviedb.org/movie/123''\<rparr> None
     = Inr ''tmdb-123@film-release-tracker''"
proof -
  let ?m = "\<lparr>tmdb_id = 123, title = ''Test Movie'', release_date = Some ''2026-04-17'',
                 tmdb_url = ''https://www.themoviedb.org/movie/123''\<rparr>"
  let ?ls = "[''BEGIN:VEVENT'',
          ''UID:tmdb-123@film-release-tracker'',
          ''DTSTAMP:20260101T000000Z'',
          ''DTSTART;VALUE=DATE:20260417'',
          ''DTEND;VALUE=DATE:20260418'',
          ''SUMMARY:Test Movie (UK theatrical release)'',
          ''DESCRIPTION:TMDb: https://www.themoviedb.org/movie/123'',
          ''STATUS:CONFIRMED'',
          ''TRANSP:TRANSPARENT'',
          ''END:VEVENT'']"
  have ev: "spec_events [?m] ''20260101T000000Z'' None = Inr ?ls"
    by (simp add: spec_event_test_movie)
  show ?thesis
    using user_identifier_is_optional [of "[]" "[?m]" "''20260101T000000Z''" "''alice''" ?ls] ev
    by (simp add: str_int_ex)
qed

section \<open>The date selector on catalog payloads\<close>

lemma fromisoformat_Inl: "fromisoformat s = Inl e \<Longrightarrow> e = ValueError"
  by (auto simp: fromisoformat_def Let_def check_date_args_Inl split: if_splits option.splits)

lemma fromisoformat_Inr: "fromisoformat s = Inr d \<Longrightarrow> valid_date d"
  by (auto simp: fromisoformat_def Let_def dest: check_date_args_Inr split: if_splits option.splits)

lemma parse_iso_date_Inl: "parse_iso_date s = Inl e \<Longrightarrow> e = ValueError"
  by (simp add: parse_iso_date_def fromisoformat_Inl)

lemma parse_iso_date_Inr: "parse_iso_date s = Inr d \<Longrightarrow> valid_date d"
  by (simp add: parse_iso_date_def fromisoformat_Inr)

lemma parse_iso_date_empty: "parse_iso_date [] = Inl ValueError"
  by (simp add: parse_iso_date_def fromisoformat_def utf8_Nil)

lemma py_eq_str_iff: "py_eq_str v t \<longleftrightarrow> v = JStr t"
  by (cases v) auto

lemma py_eq_int_3: "py_eq_int v 3 \<longleftrightarrow> v = JInt 3"
  by (cases v) auto

lemma not_gb_region_get:
  assumes "not_gb_region r"
  shows "\<exists>v. py_get r ''iso_3166_1'' = Inr v \<and> \<not> py_eq_str v ''GB''"
proof -
  obtain kv where r: "r = JDict kv" and n: "map_of kv ''iso_3166_1'' \<noteq> Some (JStr ''GB'')"
    using assms by (auto simp: not_gb_region_def split: json.splits)
  show ?thesis
  proof (cases "map_of kv ''iso_3166_1''")
    case None
    then show ?thesis by (simp add: r)
  next
    case (Some v)
    then show ?thesis using n by (simp add: r py_eq_str_iff)
  qed
qed

lemma find_gb_none: "list_all not_gb_region rs \<Longrightarrow> find_gb rs = Inr None"
proof (induction rs)
  case Nil
  then show ?case by simp
next
  case (Cons r rs)
  then obtain v where "py_get r ''iso_3166_1'' = Inr v" "\<not> py_eq_str v ''GB''"
    using not_gb_region_get [of r] by auto
  then show ?case using Cons by simp
qed

lemma find_gb_at:
  assumes "list_all not_gb_region pre" "map_of gb ''iso_3166_1'' = Some (JStr ''GB'')"
  shows "find_gb (pre @ JDict gb # post) = Inr (Some (JDict gb))"
  using assms(1)
proof (induction pre)
  case Nil
  then show ?case using assms(2) by simp
next
  case (Cons r rs)
  then obtain v where "py_get r ''iso_3166_1'' = Inr v" "\<not> py_eq_str v ''GB''"
    using not_gb_region_get [of r] by auto
  then show ?case using Cons by simp
qed

lemma theatrical_dates_Cons:
  "theatrical_dates (rd # rds) = theatrical_dates [rd] @ theatrical_dates rds"
  by (simp add: theatrical_dates_def map_filter_def)

lemma malformed_diagnostics_Cons:
  "malformed_diagnostics (rd # rds) = malformed_diagnostics [rd] @ malformed_diagnostics rds"
  by (simp add: malformed_diagnostics_def map_filter_def)

lemma theatrical_dates_Nil: "theatrical_dates [] = []"
  by (simp add: theatrical_dates_def map_filter_def)

lemma malformed_diagnostics_Nil: "malformed_diagnostics [] = []"
  by (simp add: malformed_diagnostics_def map_filter_def)

lemma entry_no_date:
  assumes "theatrical_date_string rd = None"
  shows "theatrical_dates [rd] = []" "malformed_diagnostics [rd] = []"
  using assms
  by (simp_all add: theatrical_dates_def malformed_diagnostics_def map_filter_def entry_date_def
        malformed_entry_def)

lemma entry_parsed:
  assumes "theatrical_date_string rd = Some s" "parse_iso_date s = Inr d"
  shows "theatrical_dates [rd] = [d]" "malformed_diagnostics [rd] = []"
  using assms
  by (simp_all add: theatrical_dates_def malformed_diagnostics_def map_filter_def entry_date_def
        malformed_entry_def)

lemma entry_malformed:
  assumes "theatrical_date_string rd = Some s" "parse_iso_date s = Inl e"
  shows "theatrical_dates [rd] = []" "malformed_diagnostics [rd] = [CouldNotParse (JStr s)]"
  using assms
  by (simp_all add: theatrical_dates_def malformed_diagnostics_def map_filter_def entry_date_def
        malformed_entry_def)

lemma collect_skip_type:
  assumes "map_of kv ''type'' \<noteq> Some (JInt 3)"
  shows "collect_theatrical (JDict kv # rds) acc log = collect_theatrical rds acc log"
proof -
  have "\<not> py_eq_int (case map_of kv ''type'' of None \<Rightarrow> JNull | Some v \<Rightarrow> v) 3"
    using assms by (cases "map_of kv ''type''") (simp_all add: py_eq_int_3)
  then show ?thesis by (simp add: TMDB_RELEASE_TYPE_THEATRICAL_def)
qed

lemma collect_skip_falsy:
  assumes "map_of kv ''type'' = Some (JInt 3)"
    "\<not> py_truthy (case map_of kv ''release_date'' of None \<Rightarrow> JNull | Some v \<Rightarrow> v)"
  shows "collect_theatrical (JDict kv # rds) acc log = collect_theatrical rds acc log"
  using assms by (simp add: TMDB_RELEASE_TYPE_THEATRICAL_def)

lemma collect_string:
  assumes "map_of kv ''type'' = Some (JInt 3)" "map_of kv ''release_date'' = Some (JStr s)" "s \<noteq> []"
  shows "collect_theatrical (JDict kv # rds) acc log =
           (case parse_iso_date s of
              Inr d \<Rightarrow> collect_theatrical rds (acc @ [d]) log
            | Inl e \<Rightarrow> collect_theatrical rds acc (log @ [CouldNotParse (JStr s)]))"
proof (cases "parse_iso_date s")
  case (Inl e)
  then have "e = ValueError" by (rule parse_iso_date_Inl)
  then show ?thesis using assms Inl
    by (simp add: TMDB_RELEASE_TYPE_THEATRICAL_def try_parse_def)
next
  case (Inr d)
  then show ?thesis using assms
    by (simp add: TMDB_RELEASE_TYPE_THEATRICAL_def try_parse_def)
qed

lemma collect_step:
  assumes "well_formed_entry rd"
  shows "collect_theatrical (rd # rds) acc log =
           collect_theatrical rds (acc @ theatrical_dates [rd]) (log @ malformed_diagnostics [rd])"
proof -
  obtain kv where rd: "rd = JDict kv"
    using assms by (auto simp: well_formed_entry_def split: json.splits)
  show ?thesis
  proof (cases "map_of kv ''type'' = Some (JInt 3)")
    case False
    then have "theatrical_date_string rd = None"
      by (simp add: theatrical_date_string_def rd)
    then show ?thesis
      using collect_skip_type [OF False] by (simp add: entry_no_date rd)
  next
    case True
    consider "map_of kv ''release_date'' = None" | "map_of kv ''release_date'' = Some JNull"
      | "map_of kv ''release_date'' = Some (JStr [])"
      | s where "map_of kv ''release_date'' = Some (JStr s)" "s \<noteq> []"
      using assms by (auto simp: well_formed_entry_def rd split: option.splits json.splits)
    then show ?thesis
    proof cases
      case 1
      then have "theatrical_date_string rd = None"
        by (simp add: theatrical_date_string_def rd True)
      then show ?thesis using collect_skip_falsy [OF True] 1 by (simp add: entry_no_date rd)
    next
      case 2
      then have "theatrical_date_string rd = None"
        by (simp add: theatrical_date_string_def rd True)
      then show ?thesis using collect_skip_falsy [OF True] 2 by (simp add: entry_no_date rd)
    next
      case 3
      then have "theatrical_date_string rd = None"
        by (simp add: theatrical_date_string_def rd True)
      then show ?thesis using collect_skip_falsy [OF True] 3 by (simp add: entry_no_date rd)
    next
      case 4
      then have t: "theatrical_date_string rd = Some s"
        by (simp add: theatrical_date_string_def rd True)
      show ?thesis
      proof (cases "parse_iso_date s")
        case (Inl e)
        then show ?thesis
          using collect_string [OF True 4] entry_malformed [OF t Inl] by (simp add: rd)
      next
        case (Inr d)
        then show ?thesis
          using collect_string [OF True 4] entry_parsed [OF t Inr] by (simp add: rd)
      qed
    qed
  qed
qed

lemma collect_theatrical_spec:
  "list_all well_formed_entry rds \<Longrightarrow>
   collect_theatrical rds acc log = (log @ malformed_diagnostics rds, Inr (acc @ theatrical_dates rds))"
proof (induction rds arbitrary: acc log)
  case Nil
  then show ?case by (simp add: theatrical_dates_Nil malformed_diagnostics_Nil)
next
  case (Cons rd rds)
  then have w: "well_formed_entry rd" "list_all well_formed_entry rds" by simp_all
  have "collect_theatrical (rd # rds) acc log =
           collect_theatrical rds (acc @ theatrical_dates [rd]) (log @ malformed_diagnostics [rd])"
    using w(1) by (rule collect_step)
  also have "\<dots> = ((log @ malformed_diagnostics [rd]) @ malformed_diagnostics rds,
                    Inr ((acc @ theatrical_dates [rd]) @ theatrical_dates rds))"
    using w(2) by (rule Cons.IH)
  also have "\<dots> = (log @ malformed_diagnostics (rd # rds), Inr (acc @ theatrical_dates (rd # rds)))"
    using theatrical_dates_Cons [of rd rds] malformed_diagnostics_Cons [of rd rds] by simp
  finally show ?case .
qed

lemma hd_sorted_Min:
  fixes xs :: "date list"
  assumes "sorted xs" "xs \<noteq> []"
  shows "hd xs = Min (set xs)"
proof -
  obtain x xs' where xs: "xs = x # xs'" using assms(2) by (cases xs) auto
  have "\<forall>y\<in>set xs. x \<le> y" using assms(1) by (auto simp: xs)
  then have "Min (set xs) = x"
    by (intro Min_eqI) (auto simp: xs)
  then show ?thesis by (simp add: xs)
qed

lemma pick_date_Nil: "pick_date [] today = Inr (None, None)"
  by (simp add: pick_date_def)

lemma pick_date_spec:
  assumes "ds \<noteq> []"
  shows "pick_date ds today =
           Inr (if \<exists>d\<in>set ds. today \<le> d
                then (Some (isoformat (Min {d \<in> set ds. today \<le> d})), Some ''upcoming'')
                else (Some (isoformat (Min (set ds))), Some ''released''))"
proof (cases "\<exists>d\<in>set ds. today \<le> d")
  case True
  define future where "future = filter (\<lambda>d. d \<ge> today) (sort ds)"
  have ne: "future \<noteq> []" using True by (auto simp: future_def filter_empty_conv)
  have "sorted future" unfolding future_def by (intro sorted_wrt_filter) simp
  then have "hd future = Min (set future)" using ne by (rule hd_sorted_Min)
  moreover have "set future = {d \<in> set ds. today \<le> d}" by (auto simp: future_def)
  ultimately have h: "hd future = Min {d \<in> set ds. today \<le> d}" by simp
  obtain d rest where f: "future = d # rest" using ne by (cases future) auto
  then have "d = Min {d \<in> set ds. today \<le> d}" using h by simp
  then show ?thesis
    using assms True f by (simp add: pick_date_def future_def [symmetric] Let_def)
next
  case False
  then have e: "filter (\<lambda>d. d \<ge> today) (sort ds) = []"
    by (auto simp: filter_empty_conv)
  have ne: "sort ds \<noteq> []" using assms by (metis length_sort length_0_conv)
  then have "hd (sort ds) = Min (set (sort ds))" by (intro hd_sorted_Min) simp_all
  then have h: "hd (sort ds) = Min (set ds)" by simp
  obtain d rest where s: "sort ds = d # rest" using ne by (cases "sort ds") auto
  then have "d = Min (set ds)" using h by simp
  then show ?thesis
    using assms False s e by (simp add: pick_date_def Let_def)
qed

lemma choose_no_gb:
  assumes "map_of payload ''results'' = None \<or>
           (\<exists>rs. map_of payload ''results'' = Some (JList rs) \<and> list_all not_gb_region rs)"
  shows "choose_gb_theatrical_date (JDict payload) today = ([], Inr (None, None))"
  using assms by (auto simp: choose_gb_theatrical_date_def find_gb_none)

lemma choose_gb_entry:
  assumes "gb_region_at payload pre gb post"
  shows "choose_gb_theatrical_date (JDict payload) today =
           (case py_iter (case map_of gb ''release_dates'' of None \<Rightarrow> JList [] | Some v \<Rightarrow> v) of
              Inl e \<Rightarrow> ([], Inl e)
            | Inr rds \<Rightarrow>
                (case collect_theatrical rds [] [] of
                   (log, Inl e) \<Rightarrow> (log, Inl e)
                 | (log, Inr theatrical) \<Rightarrow> (log, pick_date theatrical today)))"
proof -
  have r: "map_of payload ''results'' = Some (JList (pre @ JDict gb # post))"
    and p: "list_all not_gb_region pre" and g: "map_of gb ''iso_3166_1'' = Some (JStr ''GB'')"
    using assms by (simp_all add: gb_region_at_def)
  have t: "py_truthy (JDict gb)" using g by auto
  show ?thesis
    unfolding choose_gb_theatrical_date_def
    using t by (simp add: r find_gb_at [OF p g])
qed

lemma choose_spec:
  assumes "gb_region_at payload pre gb post" "map_of gb ''release_dates'' = Some (JList rds)"
    "list_all well_formed_entry rds"
  shows "choose_gb_theatrical_date (JDict payload) today =
           (malformed_diagnostics rds, pick_date (theatrical_dates rds) today)"
  by (simp add: choose_gb_entry [OF assms(1)] assms(2) collect_theatrical_spec [OF assms(3)])

lemma collect_non_theatrical:
  "list_all non_theatrical rds \<Longrightarrow> collect_theatrical rds acc log = (log, Inr acc)"
proof (induction rds)
  case Nil
  then show ?case by simp
next
  case (Cons rd rds)
  then obtain kv where rd: "rd = JDict kv" and t: "map_of kv ''type'' \<noteq> Some (JInt 3)"
    by (auto simp: non_theatrical_def split: json.splits)
  have "collect_theatrical (rd # rds) acc log = collect_theatrical rds acc log"
    unfolding rd using t by (rule collect_skip_type)
  then show ?case using Cons by simp
qed

lemma choose_no_theatrical:
  assumes "gb_region_at payload pre gb post"
    "map_of gb ''release_dates'' = None \<or>
       (\<exists>rds. map_of gb ''release_dates'' = Some (JList rds) \<and> list_all non_theatrical rds)"
  shows "choose_gb_theatrical_date (JDict payload) today = ([], Inr (None, None))"
  using assms(2)
  by (auto simp: choose_gb_entry [OF assms(1)] collect_non_theatrical pick_date_Nil)





lemma try_parse_Inr: "try_parse rd = Inr d \<Longrightarrow> valid_date d"
  by (auto simp: try_parse_def dest: parse_iso_date_Inr split: sum.splits json.splits)

lemma collect_cases:
  "(\<exists>e. collect_theatrical (rd # rds) acc log = (log, Inl e)) \<or>
   collect_theatrical (rd # rds) acc log = collect_theatrical rds acc log \<or>
   (\<exists>d. try_parse rd = Inr d \<and>
        collect_theatrical (rd # rds) acc log = collect_theatrical rds (acc @ [d]) log) \<or>
   (\<exists>v. collect_theatrical (rd # rds) acc log = collect_theatrical rds acc (log @ [CouldNotParse v]))"
  by (auto split: sum.splits)

lemma collect_valid:
  "collect_theatrical rds acc log = (log', Inr ds) \<Longrightarrow> list_all valid_date acc \<Longrightarrow>
   list_all valid_date ds"
proof (induction rds arbitrary: acc log)
  case Nil
  then show ?case by simp
next
  case (Cons rd rds)
  from collect_cases [of rd rds acc log] show ?case
  proof (elim disjE exE conjE)
    fix e
    assume "collect_theatrical (rd # rds) acc log = (log, Inl e)"
    then show ?thesis using Cons.prems(1) by simp
  next
    assume "collect_theatrical (rd # rds) acc log = collect_theatrical rds acc log"
    then have "collect_theatrical rds acc log = (log', Inr ds)" using Cons.prems(1) by simp
    then show ?thesis using Cons.prems(2) by (rule Cons.IH)
  next
    fix d
    assume d: "try_parse rd = Inr d"
      and "collect_theatrical (rd # rds) acc log = collect_theatrical rds (acc @ [d]) log"
    then have "collect_theatrical rds (acc @ [d]) log = (log', Inr ds)" using Cons.prems(1) by simp
    moreover have "list_all valid_date (acc @ [d])"
      using Cons.prems(2) try_parse_Inr [OF d] by simp
    ultimately show ?thesis by (rule Cons.IH)
  next
    fix v
    assume "collect_theatrical (rd # rds) acc log = collect_theatrical rds acc (log @ [CouldNotParse v])"
    then have "collect_theatrical rds acc (log @ [CouldNotParse v]) = (log', Inr ds)"
      using Cons.prems(1) by simp
    then show ?thesis using Cons.prems(2) by (rule Cons.IH)
  qed
qed

lemma pick_date_result:
  assumes "pick_date ds today = Inr (a, b)" "list_all valid_date ds"
  shows "(a = None \<and> b = None) \<or>
         (\<exists>d. valid_date d \<and> a = Some (isoformat d) \<and> (b = Some ''upcoming'' \<or> b = Some ''released''))"
proof (cases "ds = []")
  case True
  then show ?thesis using assms(1) by (simp add: pick_date_Nil)
next
  case False
  have v: "valid_date d" if "d \<in> set ds" for d
    using assms(2) that by (simp add: list_all_iff)
  show ?thesis
  proof (cases "\<exists>d\<in>set ds. today \<le> d")
    case True
    then have ne: "{d \<in> set ds. today \<le> d} \<noteq> {}" by auto
    have "finite {d \<in> set ds. today \<le> d}" by simp
    then have "Min {d \<in> set ds. today \<le> d} \<in> {d \<in> set ds. today \<le> d}"
      using ne by (rule Min_in)
    then have "valid_date (Min {d \<in> set ds. today \<le> d})" using v by simp
    then show ?thesis using assms(1) True by (auto simp: pick_date_spec [OF False])
  next
    case no: False
    have "Min (set ds) \<in> set ds" using False by (intro Min_in) simp_all
    then have "valid_date (Min (set ds))" using v by simp
    then show ?thesis using assms(1) no by (auto simp: pick_date_spec [OF False])
  qed
qed

lemma iso_date_shape_isoformat: "valid_date d \<Longrightarrow> iso_date_shape (isoformat d)"
proof -
  assume v: "valid_date d"
  have b: "1 \<le> year d" "year d \<le> 9999" "1 \<le> month d" "month d \<le> 12" "1 \<le> day d" "day d \<le> 31"
    using valid_date_bounds [OF v] by simp_all
  have dg: "nat (year d) div 1000 < 10" "nat (year d) div 100 mod 10 < 10"
    "nat (year d) div 10 mod 10 < 10" "nat (year d) mod 10 < 10"
    "nat (month d) div 10 < 10" "nat (month d) mod 10 < 10"
    "nat (day d) div 10 < 10" "nat (day d) mod 10 < 10"
    using b by simp_all
  show ?thesis
    unfolding iso_date_shape_def isoformat_valid [OF v]
    using dg by (simp add: is_digit_digit_char)
qed

lemma choose_result:
  assumes "choose_gb_theatrical_date payload today = (log, Inr (a, b))"
  shows "(a = None \<and> b = None) \<or>
         (\<exists>d. valid_date d \<and> a = Some (isoformat d) \<and> (b = Some ''upcoming'' \<or> b = Some ''released''))"
proof -
  from assms consider "a = None \<and> b = None"
    | rds theatrical where "collect_theatrical rds [] [] = (log, Inr theatrical)"
        "pick_date theatrical today = Inr (a, b)"
    unfolding choose_gb_theatrical_date_def
    by (auto split: sum.splits option.splits if_splits prod.splits)
  then show ?thesis
  proof cases
    case 1
    then show ?thesis by simp
  next
    case 2
    have "list_all valid_date theatrical"
      using collect_valid [OF 2(1)] by simp
    then show ?thesis using pick_date_result [OF 2(2)] by blast
  qed
qed

lemma parse_examples:
  "parse_iso_date ''2026-04-17T00:00:00.000Z'' = Inr (Date 2026 4 17)"
  "parse_iso_date ''2026-05-01T00:00:00.000Z'' = Inr (Date 2026 5 1)"
  "parse_iso_date ''not-a-date'' = Inl ValueError"
  by code_simp+

text \<open>
  The length that \<^verbatim>\<open>fromisoformat\<close> tests is the length in bytes: eight digits and one
  character of two bytes are a date, eight digits and two such characters are not.
\<close>

lemma parse_utf8_examples:
  "parse_iso_date (''20260417'' @ [CHR 0xE9]) = Inr (Date 2026 4 17)"
  "parse_iso_date (''20260417'' @ [CHR 0xE9, CHR 0xE9]) = Inl ValueError"
  "parse_iso_date (''2026041'' @ [CHR 0xE9]) = Inl ValueError"
  by code_simp+

lemma int_space_examples:
  "py_int (''17'' @ [CHR 0xA0]) = Inr 17" "py_int ([CHR 0x85] @ ''17'') = Inr 17"
  "py_int ([CHR 0x1C] @ ''17'') = Inl ValueError"
  by code_simp+

lemma isoformat_examples:
  "isoformat (Date 2026 4 17) = ''2026-04-17''" "isoformat (Date 2026 5 1) = ''2026-05-01''"
  by code_simp+

lemma date_order_examples:
  "Date 2026 1 1 \<le> Date 2026 4 17" "\<not> Date 2026 5 1 \<le> Date 2026 4 17"
  "Date 2026 4 17 < Date 2026 5 1" "Date 2026 4 17 \<noteq> Date 2026 5 1"
  by (simp_all add: less_eq_date_def less_date_def)

section \<open>Claims about the date selector\<close>

text \<open>
  Claim C1. Take any reference date \<open>R\<close> and any payload whose first GB entry has a list of
  well-formed release-date entries of which exactly one contributes a theatrical date that
  parses, \<open>D\<close>. The selector returns the ISO string of \<open>D\<close> with the bucket
  \<^verbatim>\<open>upcoming\<close> when \<open>D\<close> is on or after \<open>R\<close>, and with the bucket \<^verbatim>\<open>released\<close>
  when \<open>D\<close> is before \<open>R\<close>.
\<close>

theorem single_theatrical_date:
  assumes "gb_region_at payload pre gb post"
    and "map_of gb ''release_dates'' = Some (JList rds)"
    and "list_all well_formed_entry rds"
    and "theatrical_dates rds = [D]"
  shows "snd (choose_gb_theatrical_date (JDict payload) R) =
           Inr (Some (isoformat D), Some (if D \<ge> R then ''upcoming'' else ''released''))"
proof -
  have c: "snd (choose_gb_theatrical_date (JDict payload) R) = pick_date [D] R"
    using assms(4) by (simp add: choose_spec [OF assms(1-3)])
  show ?thesis
  proof (cases "R \<le> D")
    case True
    then have "{d \<in> set [D]. R \<le> d} = {D}" by auto
    then show ?thesis using True by (simp add: c pick_date_spec)
  next
    case False
    then show ?thesis by (simp add: c pick_date_spec)
  qed
qed

theorem single_theatrical_date_witness:
  "snd (choose_gb_theatrical_date
     (JDict [(''id'', JInt 123),
             (''results'', JList
                [JDict [(''iso_3166_1'', JStr ''US''),
                        (''release_dates'', JList
                           [JDict [(''type'', JInt 3), (''release_date'', JStr ''2026-05-01T00:00:00.000Z'')]])],
                 JDict [(''iso_3166_1'', JStr ''GB''),
                        (''release_dates'', JList
                           [JDict [(''type'', JInt 4), (''release_date'', JStr ''2026-05-01T00:00:00.000Z'')],
                            JDict [(''type'', JInt 3), (''release_date'', JStr ''2026-04-17T00:00:00.000Z'')]])]])])
     (Date 2026 1 1)) = Inr (Some ''2026-04-17'', Some ''upcoming'') \<and>
   snd (choose_gb_theatrical_date
     (JDict [(''id'', JInt 123),
             (''results'', JList
                [JDict [(''iso_3166_1'', JStr ''US''),
                        (''release_dates'', JList
                           [JDict [(''type'', JInt 3), (''release_date'', JStr ''2026-05-01T00:00:00.000Z'')]])],
                 JDict [(''iso_3166_1'', JStr ''GB''),
                        (''release_dates'', JList
                           [JDict [(''type'', JInt 4), (''release_date'', JStr ''2026-05-01T00:00:00.000Z'')],
                            JDict [(''type'', JInt 3), (''release_date'', JStr ''2026-04-17T00:00:00.000Z'')]])]])])
     (Date 2026 5 1)) = Inr (Some ''2026-04-17'', Some ''released'')"
proof -
  let ?us = "JDict [(''iso_3166_1'', JStr ''US''),
                        (''release_dates'', JList
                           [JDict [(''type'', JInt 3), (''release_date'', JStr ''2026-05-01T00:00:00.000Z'')]])]"
  let ?rds = "[JDict [(''type'', JInt 4), (''release_date'', JStr ''2026-05-01T00:00:00.000Z'')],
               JDict [(''type'', JInt 3), (''release_date'', JStr ''2026-04-17T00:00:00.000Z'')]]"
  let ?gb = "[(''iso_3166_1'', JStr ''GB''), (''release_dates'', JList ?rds)]"
  let ?p = "[(''id'', JInt 123), (''results'', JList [?us, JDict ?gb])]"
  have 1: "gb_region_at ?p [?us] ?gb []"
    by (simp add: gb_region_at_def not_gb_region_def)
  have 2: "map_of ?gb ''release_dates'' = Some (JList ?rds)" by simp
  have 3: "list_all well_formed_entry ?rds" by (simp add: well_formed_entry_def)
  have 4: "theatrical_dates ?rds = [Date 2026 4 17]"
    by (simp add: theatrical_dates_def map_filter_def entry_date_def theatrical_date_string_def
          parse_examples)
  show ?thesis
    using single_theatrical_date [OF 1 2 3 4, of "Date 2026 1 1"]
      single_theatrical_date [OF 1 2 3 4, of "Date 2026 5 1"]
    by (simp add: isoformat_examples date_order_examples)
qed

text \<open>
  Claim C2. Take any reference date \<open>R\<close> and any payload whose first GB entry has a list of
  well-formed release-date entries with at least one theatrical date that parses. When some
  of these dates are on or after \<open>R\<close>, the selector returns the least of those, with the
  bucket \<^verbatim>\<open>upcoming\<close>; otherwise it returns the least of all of them, with the bucket
  \<^verbatim>\<open>released\<close>. In particular, for two dates \<open>D1 < D2\<close>, both on or after \<open>R\<close>,
  it returns \<open>D1\<close> and \<^verbatim>\<open>upcoming\<close>.
\<close>

theorem earliest_eligible_date:
  assumes "gb_region_at payload pre gb post"
    and "map_of gb ''release_dates'' = Some (JList rds)"
    and "list_all well_formed_entry rds"
    and "theatrical_dates rds = ds" and "ds \<noteq> []"
  shows "snd (choose_gb_theatrical_date (JDict payload) R) =
           Inr (if \<exists>d\<in>set ds. R \<le> d
                then (Some (isoformat (Min {d \<in> set ds. R \<le> d})), Some ''upcoming'')
                else (Some (isoformat (Min (set ds))), Some ''released'')) \<and>
         (\<forall>D1 D2. set ds = {D1, D2} \<and> D1 < D2 \<and> R \<le> D1 \<longrightarrow>
            snd (choose_gb_theatrical_date (JDict payload) R) =
              Inr (Some (isoformat D1), Some ''upcoming''))"
proof -
  have c: "snd (choose_gb_theatrical_date (JDict payload) R) = pick_date ds R"
    using assms(4) by (simp add: choose_spec [OF assms(1-3)])
  have g: "snd (choose_gb_theatrical_date (JDict payload) R) =
           Inr (if \<exists>d\<in>set ds. R \<le> d
                then (Some (isoformat (Min {d \<in> set ds. R \<le> d})), Some ''upcoming'')
                else (Some (isoformat (Min (set ds))), Some ''released''))"
    unfolding c using assms(5) by (rule pick_date_spec)
  have "snd (choose_gb_theatrical_date (JDict payload) R) = Inr (Some (isoformat D1), Some ''upcoming'')"
    if "set ds = {D1, D2}" "D1 < D2" "R \<le> D1" for D1 D2
  proof -
    have "{d \<in> set ds. R \<le> d} = {D1, D2}" using that by auto
    moreover have "Min {D1, D2} = D1" using that(2) by (simp add: min_def less_imp_le)
    moreover have "\<exists>d\<in>set ds. R \<le> d" using that by auto
    ultimately show ?thesis using g by simp
  qed
  then show ?thesis using g by blast
qed

theorem earliest_eligible_date_witness:
  "snd (choose_gb_theatrical_date
     (JDict [(''id'', JInt 123),
             (''results'', JList
                [JDict [(''iso_3166_1'', JStr ''GB''),
                        (''release_dates'', JList
                           [JDict [(''type'', JInt 3), (''release_date'', JStr ''2026-05-01T00:00:00.000Z'')],
                            JDict [(''type'', JInt 3), (''release_date'', JStr ''2026-04-17T00:00:00.000Z'')]])]])])
     (Date 2026 1 1)) = Inr (Some ''2026-04-17'', Some ''upcoming'')"
proof -
  let ?rds = "[JDict [(''type'', JInt 3), (''release_date'', JStr ''2026-05-01T00:00:00.000Z'')],
               JDict [(''type'', JInt 3), (''release_date'', JStr ''2026-04-17T00:00:00.000Z'')]]"
  let ?gb = "[(''iso_3166_1'', JStr ''GB''), (''release_dates'', JList ?rds)]"
  let ?p = "[(''id'', JInt 123), (''results'', JList [JDict ?gb])]"
  have 1: "gb_region_at ?p [] ?gb []"
    by (simp add: gb_region_at_def)
  have 2: "map_of ?gb ''release_dates'' = Some (JList ?rds)" by simp
  have 3: "list_all well_formed_entry ?rds" by (simp add: well_formed_entry_def)
  have 4: "theatrical_dates ?rds = [Date 2026 5 1, Date 2026 4 17]"
    by (simp add: theatrical_dates_def map_filter_def entry_date_def theatrical_date_string_def
          parse_examples)
  have 5: "[Date 2026 5 1, Date 2026 4 17] \<noteq> []" by simp
  have 6: "set [Date 2026 5 1, Date 2026 4 17] = {Date 2026 4 17, Date 2026 5 1}" by auto
  have "\<forall>D1 D2. set [Date 2026 5 1, Date 2026 4 17] = {D1, D2} \<and> D1 < D2 \<and> Date 2026 1 1 \<le> D1 \<longrightarrow>
            snd (choose_gb_theatrical_date (JDict ?p) (Date 2026 1 1)) =
              Inr (Some (isoformat D1), Some ''upcoming'')"
    using earliest_eligible_date [OF 1 2 3 4 5, of "Date 2026 1 1"] by blast
  then have "snd (choose_gb_theatrical_date (JDict ?p) (Date 2026 1 1)) =
              Inr (Some (isoformat (Date 2026 4 17)), Some ''upcoming'')"
    using 6 date_order_examples by blast
  then show ?thesis by (simp add: isoformat_examples)
qed

text \<open>
  Claim C3. For every reference date the selector returns (None, None), and prints nothing,
  on a payload that has no \<^verbatim>\<open>results\<close>, on a payload whose \<^verbatim>\<open>results\<close> is a list of
  region entries none of which is the GB entry, on a payload whose GB entry has no
  \<^verbatim>\<open>release_dates\<close>, and on a payload whose GB entry has a list of release-date entries
  none of which is of type 3.
\<close>

theorem no_gb_or_no_theatrical:
  "(map_of payload ''results'' = None \<longrightarrow>
      choose_gb_theatrical_date (JDict payload) R = ([], Inr (None, None))) \<and>
   (map_of payload ''results'' = Some (JList rs) \<and> list_all not_gb_region rs \<longrightarrow>
      choose_gb_theatrical_date (JDict payload) R = ([], Inr (None, None))) \<and>
   (gb_region_at payload pre gb post \<and> map_of gb ''release_dates'' = None \<longrightarrow>
      choose_gb_theatrical_date (JDict payload) R = ([], Inr (None, None))) \<and>
   (gb_region_at payload pre gb post \<and> map_of gb ''release_dates'' = Some (JList rds) \<and>
    list_all non_theatrical rds \<longrightarrow>
      choose_gb_theatrical_date (JDict payload) R = ([], Inr (None, None)))"
  using choose_no_gb [of payload R] choose_no_theatrical [of payload pre gb post R]
  by blast

theorem no_gb_or_no_theatrical_witness:
  "choose_gb_theatrical_date
     (JDict [(''id'', JInt 123),
             (''results'', JList
                [JDict [(''iso_3166_1'', JStr ''US''),
                        (''release_dates'', JList
                           [JDict [(''type'', JInt 3), (''release_date'', JStr ''2026-04-17T00:00:00.000Z'')]])]])])
     (Date 2026 1 1) = ([], Inr (None, None)) \<and>
   choose_gb_theatrical_date
     (JDict [(''id'', JInt 123),
             (''results'', JList
                [JDict [(''iso_3166_1'', JStr ''GB''),
                        (''release_dates'', JList
                           [JDict [(''type'', JInt 4), (''release_date'', JStr ''2026-04-17T00:00:00.000Z'')]])]])])
     (Date 2026 1 1) = ([], Inr (None, None)) \<and>
   choose_gb_theatrical_date (JDict [(''id'', JInt 123)]) (Date 2026 1 1) = ([], Inr (None, None)) \<and>
   choose_gb_theatrical_date
     (JDict [(''results'', JList [JDict [(''iso_3166_1'', JStr ''GB'')]])]) (Date 2026 1 1)
       = ([], Inr (None, None))"
proof -
  let ?us = "JDict [(''iso_3166_1'', JStr ''US''),
                        (''release_dates'', JList
                           [JDict [(''type'', JInt 3), (''release_date'', JStr ''2026-04-17T00:00:00.000Z'')]])]"
  let ?rds = "[JDict [(''type'', JInt 4), (''release_date'', JStr ''2026-04-17T00:00:00.000Z'')]]"
  let ?gb = "[(''iso_3166_1'', JStr ''GB''), (''release_dates'', JList ?rds)]"
  have a: "choose_gb_theatrical_date (JDict [(''id'', JInt 123), (''results'', JList [?us])]) (Date 2026 1 1)
             = ([], Inr (None, None))"
    using no_gb_or_no_theatrical [of "[(''id'', JInt 123), (''results'', JList [?us])]" "Date 2026 1 1" "[?us]"]
    by (simp add: not_gb_region_def)
  have b: "choose_gb_theatrical_date (JDict [(''id'', JInt 123), (''results'', JList [JDict ?gb])]) (Date 2026 1 1)
             = ([], Inr (None, None))"
    using no_gb_or_no_theatrical [of "[(''id'', JInt 123), (''results'', JList [JDict ?gb])]" "Date 2026 1 1"
        _ "[]" ?gb "[]" ?rds]
    by (simp add: gb_region_at_def non_theatrical_def)
  have c: "choose_gb_theatrical_date (JDict [(''id'', JInt 123)]) (Date 2026 1 1) = ([], Inr (None, None))"
    using no_gb_or_no_theatrical [of "[(''id'', JInt 123)]" "Date 2026 1 1"] by simp
  have d: "choose_gb_theatrical_date
     (JDict [(''results'', JList [JDict [(''iso_3166_1'', JStr ''GB'')]])]) (Date 2026 1 1)
       = ([], Inr (None, None))"
    using no_gb_or_no_theatrical [of "[(''results'', JList [JDict [(''iso_3166_1'', JStr ''GB'')]])]"
        "Date 2026 1 1" _ "[]" "[(''iso_3166_1'', JStr ''GB'')]" "[]"]
    by (simp add: gb_region_at_def)
  show ?thesis using a b c d by simp
qed



text \<open>
  Claim C10. For every payload, of any shape, and every reference date: when the selector
  returns a pair, the pair is (None, None), or it is the ISO string of a date that exists
  (ten characters \<^verbatim>\<open>YYYY-MM-DD\<close>, which parse back to the date) together with one of
  the two buckets \<^verbatim>\<open>upcoming\<close> and \<^verbatim>\<open>released\<close>.
\<close>

theorem result_never_partially_null:
  assumes "choose_gb_theatrical_date payload R = (log, Inr (a, b))"
  shows "(a = None \<and> b = None) \<or>
         (\<exists>d. valid_date d \<and> a = Some (isoformat d) \<and> iso_date_shape (isoformat d) \<and>
              parse_iso_date (isoformat d) = Inr d \<and>
              (b = Some ''upcoming'' \<or> b = Some ''released''))"
proof -
  have p: "parse_iso_date (isoformat d) = Inr d" if "valid_date d" for d
    using that by (simp add: parse_iso_date_def length_isoformat fromisoformat_isoformat)
  show ?thesis
    using choose_result [OF assms] iso_date_shape_isoformat p by blast
qed

lemma choose_example:
  "choose_gb_theatrical_date
     (JDict [(''results'', JList
                [JDict [(''iso_3166_1'', JStr ''GB''),
                        (''release_dates'', JList
                           [JDict [(''type'', JInt 3), (''release_date'', JStr ''2026-04-17T00:00:00.000Z'')]])]])])
     (Date 2026 5 1) = ([], Inr (Some ''2026-04-17'', Some ''released''))"
  by code_simp

theorem result_never_partially_null_witness:
  "\<exists>d. valid_date d \<and> ''2026-04-17'' = isoformat d \<and> iso_date_shape (isoformat d) \<and>
       parse_iso_date (isoformat d) = Inr d"
  using result_never_partially_null [OF choose_example] by simp

end
